theory Spec2Isabelle
  imports Complex_Main
begin

section \<open>Geometry of detected boxes\<close>

text \<open>
  The post-processing of \<^verbatim>\<open>craft_utils.py\<close> works on NumPy arrays of
  floating point numbers.  Coordinates are modelled as reals, a point as a pair
  \<open>(x, y)\<close>, and a box (a \<open>4\<times>2\<close> array) as the list of its four points, so
  that \<^verbatim>\<open>box[i, 0]\<close> is \<open>fst (box ! i)\<close> and \<^verbatim>\<open>box[i, 1]\<close> is
  \<open>snd (box ! i)\<close>.
\<close>

type_synonym point = "real \<times> real"
type_synonym box = "point list"

subsection \<open>The adjacency test \<^verbatim>\<open>compare_boxes\<close>\<close>

text \<open>\<^verbatim>\<open>np.mean(box, axis=0)\<close>: the mean of the x and of the y coordinates.\<close>

definition np_mean_axis0 :: "box \<Rightarrow> point" where
  "np_mean_axis0 b =
     (sum_list (map fst b) / real (length b), sum_list (map snd b) / real (length b))"

text \<open>
  \<^verbatim>\<open>permutations(range(4), 2)\<close>: the ordered pairs of distinct indices below 4, in
  lexicographic order.
\<close>

definition permutations_4_2 :: "(nat \<times> nat) list" where
  "permutations_4_2 =
     concat (map (\<lambda>i. map (\<lambda>j. (i, j)) (filter (\<lambda>j. j \<noteq> i) [0..<4])) [0..<4])"

text \<open>
  The body of the two nested loops of \<^verbatim>\<open>compare_boxes\<close>, for the index pairs
  \<open>(i, j)\<close> and \<open>(k, l)\<close>.  As in the source, both slopes divide a difference of
  y coordinates of \<open>box1\<close> by a difference of x coordinates of \<open>box2\<close> (replaced by
  0.001 when it is zero), and the second midpoint is taken between the vertices
  \<open>j\<close> and \<open>k\<close> of \<open>box2\<close>.
\<close>

definition edge_test :: "box \<Rightarrow> box \<Rightarrow> real \<Rightarrow> real \<Rightarrow> nat \<Rightarrow> nat \<Rightarrow> nat \<Rightarrow> nat \<Rightarrow> bool" where
  "edge_test box1 box2 slope_thresh min_edge_distance i j k l =
     (let slope1 = (snd (box1 ! i) - snd (box1 ! j)) /
                     (if fst (box2 ! i) - fst (box2 ! j) \<noteq> 0
                      then fst (box2 ! i) - fst (box2 ! j) else 0.001);
          slope2 = (snd (box1 ! k) - snd (box1 ! l)) /
                     (if fst (box2 ! k) - fst (box2 ! l) \<noteq> 0
                      then fst (box2 ! k) - fst (box2 ! l) else 0.001);
          linecentroid1 = ((fst (box1 ! i) + fst (box1 ! j)) / 2,
                           (snd (box1 ! i) + snd (box1 ! j)) / 2);
          linecentroid2 = ((fst (box2 ! j) + fst (box2 ! k)) / 2,
                           (snd (box2 ! j) + snd (box2 ! k)) / 2)
      in \<bar>slope1 - slope2\<bar> < slope_thresh \<and>
         \<bar>fst linecentroid1 - fst linecentroid2\<bar> + \<bar>snd linecentroid1 - snd linecentroid2\<bar>
           < min_edge_distance)"

text \<open>
  \<^verbatim>\<open>compare_boxes\<close> returns \<^verbatim>\<open>True\<close> from inside the loops at the first
  index combination that passes the test, \<^verbatim>\<open>False\<close> when the first centroid is
  not above the second, and falls off its end (Python's \<^verbatim>\<open>None\<close>) when the
  centroid test passes and no combination does.  The result is a \<open>bool option\<close>,
  with \<open>None\<close> for Python's \<^verbatim>\<open>None\<close>.
\<close>

definition compare_boxes :: "box \<Rightarrow> box \<Rightarrow> real \<Rightarrow> real \<Rightarrow> bool option" where
  "compare_boxes box1 box2 slope_thresh min_edge_distance =
     (let boxcentroid1 = np_mean_axis0 box1;
          boxcentroid2 = np_mean_axis0 box2
      in if snd boxcentroid1 < snd boxcentroid2 then
           (if list_ex (\<lambda>(i, j).
                 list_ex (\<lambda>(k, l). edge_test box1 box2 slope_thresh min_edge_distance i j k l)
                   permutations_4_2) permutations_4_2
            then Some True else None)
         else Some False)"

text \<open>The truth value Python's \<^verbatim>\<open>if\<close> gives to the result.\<close>

fun truthy :: "bool option \<Rightarrow> bool" where
  "truthy None = False"
| "truthy (Some b) = b"

subsection \<open>The linking loops at the end of \<^verbatim>\<open>getDetBoxes_core\<close>\<close>

text \<open>
  \<^verbatim>\<open>
  word_id = [-1]*len(det)
  for id1, (box1, size1) in enumerate(zip(det, avg_character_sizes)):
      for id2, (box2, size2) in enumerate(zip(det, avg_character_sizes)):
          if id1 == id2:
              pass
          else:
              if compare_boxes(box1, box2):
                  word_id[id1] = id2
  \<close>
  The list \<open>word_id\<close> is threaded through both loops.
\<close>

fun link_inner :: "box \<Rightarrow> nat \<Rightarrow> (nat \<times> box \<times> real) list \<Rightarrow> int list \<Rightarrow> int list" where
  "link_inner box1 id1 [] word_id = word_id"
| "link_inner box1 id1 ((id2, box2, size2) # rest) word_id =
     link_inner box1 id1 rest
       (if id1 = id2 then word_id
        else if truthy (compare_boxes box1 box2 0.1 10) then word_id[id1 := int id2]
        else word_id)"

fun link_outer :: "(nat \<times> box \<times> real) list \<Rightarrow> (nat \<times> box \<times> real) list \<Rightarrow> int list \<Rightarrow> int list" where
  "link_outer every [] word_id = word_id"
| "link_outer every ((id1, box1, size1) # rest) word_id =
     link_outer every rest (link_inner box1 id1 every word_id)"

definition link_boxes :: "box list \<Rightarrow> real list \<Rightarrow> int list" where
  "link_boxes det avg_character_sizes =
     (let pairs = enumerate 0 (zip det avg_character_sizes)
      in link_outer pairs pairs (replicate (length det) (- 1)))"

subsection \<open>The adjacency test in the words of the specification\<close>

text \<open>
  The specification describes the test on the edges of the two boxes: the slope
  of the segment between the vertices \<open>i\<close> and \<open>j\<close> of the first box against the
  slope of the segment between the vertices \<open>k\<close> and \<open>l\<close> of the second, and the
  midpoints of the same two segments.  \<open>spec_isAbove\<close> follows these words (with the
  source's replacement of a zero horizontal difference by 0.001), to be compared
  with \<open>compare_boxes\<close>.
\<close>

definition spec_slope :: "box \<Rightarrow> nat \<Rightarrow> nat \<Rightarrow> real" where
  "spec_slope b i j =
     (snd (b ! i) - snd (b ! j)) /
       (if fst (b ! i) - fst (b ! j) \<noteq> 0 then fst (b ! i) - fst (b ! j) else 0.001)"

definition spec_midpoint :: "box \<Rightarrow> nat \<Rightarrow> nat \<Rightarrow> point" where
  "spec_midpoint b i j = ((fst (b ! i) + fst (b ! j)) / 2, (snd (b ! i) + snd (b ! j)) / 2)"

definition spec_isAbove :: "box \<Rightarrow> box \<Rightarrow> bool" where
  "spec_isAbove box_i box_j =
     (snd (np_mean_axis0 box_i) < snd (np_mean_axis0 box_j) \<and>
      list_ex (\<lambda>(i, j). list_ex (\<lambda>(k, l).
          \<bar>spec_slope box_i i j - spec_slope box_j k l\<bar> < 0.1 \<and>
          \<bar>fst (spec_midpoint box_i i j) - fst (spec_midpoint box_j k l)\<bar> +
          \<bar>snd (spec_midpoint box_i i j) - snd (spec_midpoint box_j k l)\<bar> < 10)
        permutations_4_2) permutations_4_2)"

text \<open>
  Two axis-aligned boxes of 30 by 14 pixels in the order TL, TR, BR, BL, the second
  one 5 pixels below the first.
\<close>

definition box_upper :: box where
  "box_upper = [(0, 0), (30, 0), (30, 14), (0, 14)]"

definition box_lower :: box where
  "box_lower = [(0, 19), (30, 19), (30, 33), (0, 33)]"

section \<open>Rescaling of the result coordinates\<close>

text \<open>
  \<^verbatim>\<open>
  def adjustResultCoordinates(polys, ratio_w, ratio_h, ratio_net=2):
      if len(polys) > 0:
          polys = np.array(polys)
          for k in range(len(polys)):
              if polys[k] is not None:
                  polys[k] *= (ratio_w * ratio_net, ratio_h * ratio_net)
      return polys
  \<close>
  An entry of \<open>polys\<close> is \<^verbatim>\<open>None\<close> or an array of points; the in-place product
  with a pair multiplies the x coordinates by its first and the y coordinates by
  its second component.
\<close>

type_synonym poly = "point list"




section \<open>Arrays and the library primitives\<close>

text \<open>
  A two-dimensional array is the list of its rows.  Inputs are non-empty arrays
  whose rows have one length (\<open>wf_img\<close>); \<open>shape\<close> is NumPy's \<^verbatim>\<open>.shape\<close>.
\<close>

type_synonym 'a img = "'a list list"

definition shape :: "'a img \<Rightarrow> nat \<times> nat" where
  "shape a = (length a, case a of [] \<Rightarrow> 0 | r # _ \<Rightarrow> length r)"

definition wf_img :: "'a img \<Rightarrow> bool" where
  "wf_img a = (a \<noteq> [] \<and> hd a \<noteq> [] \<and> list_all (\<lambda>r. length r = length (hd a)) a)"

text \<open>A \<open>3\<times>3\<close> matrix is the list of its three rows.\<close>

type_synonym mat = "real list list"

text \<open>
  The corners of a box are \<^verbatim>\<open>float32\<close> numbers: \<^verbatim>\<open>cv2.boxPoints\<close> returns
  them so, \<^verbatim>\<open>getDetBoxes_core\<close> builds its own boxes with \<^verbatim>\<open>dtype=np.float32\<close>,
  and \<^verbatim>\<open>sort_box\<close>, which makes every box of the result, ends with
  \<^verbatim>\<open>.astype(np.float32)\<close>.  An arithmetic operation on floating-point numbers gives
  the exact result rounded to the nearest number whose significand has \<open>p\<close> bits,
  24 for \<^verbatim>\<open>float32\<close> and 53 for \<^verbatim>\<open>float64\<close>, a tie going to the even
  significand.  \<open>fl p x\<close> is \<open>x\<close> rounded so.  \<open>expo x\<close> is the binary exponent of
  \<open>x\<close>, the integer \<open>e\<close> with \<open>2\<^sup>e \<le> \<bar>x\<bar> < 2\<^sup>e\<^sup>+\<^sup>1\<close>, found from the number of
  binary digits of the integer part of \<open>\<bar>x\<bar>\<close> or of \<open>1 / \<bar>x\<bar>\<close>;
  \<open>2 powi (expo x - p + 1)\<close> is the distance of the two neighbours of \<open>x\<close>, and
  \<open>rne\<close> rounds to the nearest integer, a half to the even one.  The range of the
  exponent is not bounded here: overflow to infinity and gradual underflow are
  outside the model.
\<close>

fun bits :: "nat \<Rightarrow> nat" where
  "bits n = (if n = 0 then 0 else Suc (bits (n div 2)))"

definition expo :: "real \<Rightarrow> int" where
  "expo x = (if 1 \<le> \<bar>x\<bar> then int (bits (nat \<lfloor>\<bar>x\<bar>\<rfloor>)) - 1
             else - int (bits (nat (\<lceil>1 / \<bar>x\<bar>\<rceil> - 1))))"

definition rne :: "real \<Rightarrow> int" where
  "rne y = (let f = \<lfloor>y\<rfloor>; d = y - real_of_int f
            in if d < 1 / 2 then f else if 1 / 2 < d then f + 1
               else if even f then f else f + 1)"

definition fl :: "nat \<Rightarrow> real \<Rightarrow> real" where
  "fl p x = (if x = 0 then 0
             else let u = 2 powi (expo x - int p + 1)
                  in real_of_int (rne (x / u)) * u)"

text \<open>
  The functions of OpenCV whose results are taken as given: the corner points of
  the minimal-area rectangle of a point set
  (\<^verbatim>\<open>cv2.boxPoints(cv2.minAreaRect(pts))\<close>, which may raise \<^verbatim>\<open>cv2.error\<close>),
  \<^verbatim>\<open>cv2.getPerspectiveTransform\<close>, \<^verbatim>\<open>cv2.warpPerspective\<close> of a label image
  to a strip of \<open>h\<close> rows and \<open>w\<close> columns, and the image
  \<^verbatim>\<open>cv2.line\<close> draws on a zero image of a given shape.

  Two things of NumPy depend on the installation and are taken as given too.
  \<open>np_dot\<close> is \<^verbatim>\<open>x.dot(x)\<close> for a \<^verbatim>\<open>float32\<close> vector \<open>x\<close> of two elements, by
  which \<^verbatim>\<open>np.linalg.norm\<close> sums the squares: the BLAS routine behind it may keep
  its intermediate results at a higher precision.  \<open>scalar_bits\<close> is the number
  of significand bits of the sum of a \<^verbatim>\<open>float32\<close> scalar and a Python number:
  24 where NumPy keeps the sum in \<^verbatim>\<open>float32\<close>, 53 where it promotes it to
  \<^verbatim>\<open>float64\<close>.
\<close>

datatype error = ValueError | IndexError | CvError

record cv2 =
  minAreaRect_boxPoints :: "(int \<times> int) list \<Rightarrow> error + box"
  getPerspectiveTransform :: "box \<Rightarrow> box \<Rightarrow> mat"
  warpPerspective :: "nat img \<Rightarrow> mat \<Rightarrow> nat \<times> nat \<Rightarrow> nat img"
  line :: "nat \<times> nat \<Rightarrow> int \<times> int \<Rightarrow> int \<times> int \<Rightarrow> nat img"
  np_dot :: "real \<times> real \<Rightarrow> real"
  scalar_bits :: nat

text \<open>
  \<^verbatim>\<open>np.linalg.norm(a - b)\<close> for two \<^verbatim>\<open>float32\<close> points.  The difference is
  rounded element by element; the norm of a \<^verbatim>\<open>float32\<close> vector \<open>x\<close> is
  \<^verbatim>\<open>sqrt(x.dot(x))\<close>, the square root rounded to \<^verbatim>\<open>float32\<close>.  Then Python's
  \<^verbatim>\<open>int(x)\<close>.
\<close>

definition np_norm :: "cv2 \<Rightarrow> point \<Rightarrow> point \<Rightarrow> real" where
  "np_norm cv a b =
     (let x = (fl 24 (fst a - fst b), fl 24 (snd a - snd b))
      in fl 24 (sqrt (np_dot cv x)))"

definition py_int :: "real \<Rightarrow> int" where
  "py_int x = (if 0 \<le> x then \<lfloor>x\<rfloor> else \<lceil>x\<rceil>)"

text \<open>
  \<^verbatim>\<open>np.linalg.inv\<close> of a \<open>3\<times>3\<close> matrix, by the adjugate; \<open>None\<close> stands for
  the \<^verbatim>\<open>LinAlgError\<close> NumPy raises on a singular matrix.
\<close>

fun det3 :: "mat \<Rightarrow> real" where
  "det3 [[a, b, c], [d, e, f], [g, h, i]] =
     a * (e * i - f * h) - b * (d * i - f * g) + c * (d * h - e * g)"
| "det3 _ = 0"

fun np_linalg_inv :: "mat \<Rightarrow> mat option" where
  "np_linalg_inv [[a, b, c], [d, e, f], [g, h, i]] =
     (let dt = det3 [[a, b, c], [d, e, f], [g, h, i]]
      in if dt = 0 then None
         else Some [[(e * i - f * h) / dt, (c * h - b * i) / dt, (b * f - c * e) / dt],
                    [(f * g - d * i) / dt, (a * i - c * g) / dt, (c * d - a * f) / dt],
                    [(d * h - e * g) / dt, (b * g - a * h) / dt, (a * e - b * d) / dt]])"
| "np_linalg_inv _ = None"

text \<open>
  \<^verbatim>\<open>
  def warpCoord(Minv, pt):
      out = np.matmul(Minv, (pt[0], pt[1], 1))
      return np.array([out[0] / out[2], out[1] / out[2]])
  \<close>
\<close>

definition np_matmul :: "mat \<Rightarrow> real list \<Rightarrow> real list" where
  "np_matmul m v = map (\<lambda>row. sum_list (map2 (*) row v)) m"

definition warpCoord :: "mat \<Rightarrow> point \<Rightarrow> point" where
  "warpCoord Minv pt =
     (let out = np_matmul Minv [fst pt, snd pt, 1]
      in (out ! 0 / out ! 2, out ! 1 / out ! 2))"

section \<open>Polygon fitting: \<^verbatim>\<open>getPoly_core\<close>\<close>

text \<open>The constants set at the start of \<^verbatim>\<open>getPoly_core\<close>.\<close>

definition num_cp :: nat where "num_cp = 5"
definition max_len_ratio :: real where "max_len_ratio = 0.7"
definition expand_ratio :: real where "expand_ratio = 1.45"
definition max_r :: real where "max_r = 2.0"
definition step_r :: real where "step_r = 0.2"

subsection \<open>Top and bottom contours of the strip\<close>

text \<open>
  \<^verbatim>\<open>
  for i in range(w):
      region = np.where(word_label[:, i] != 0)[0]
      if len(region) < 2:
          continue
      cp.append((i, region[0], region[-1]))
      length = region[-1] - region[0] + 1
      if length > max_len:
          max_len = length
  \<close>
\<close>

definition column :: "'a img \<Rightarrow> nat \<Rightarrow> 'a list" where
  "column a i = map (\<lambda>row. row ! i) a"

definition np_where_nonzero :: "nat list \<Rightarrow> nat list" where
  "np_where_nonzero v = filter (\<lambda>r. v ! r \<noteq> 0) [0..<length v]"

fun scan_columns :: "nat img \<Rightarrow> nat list \<Rightarrow> (nat \<times> nat \<times> nat) list \<times> int \<Rightarrow>
    (nat \<times> nat \<times> nat) list \<times> int" where
  "scan_columns word_label [] (cp, max_len) = (cp, max_len)"
| "scan_columns word_label (i # rest) (cp, max_len) =
     (let region = np_where_nonzero (column word_label i)
      in if length region < 2 then scan_columns word_label rest (cp, max_len)
         else let len = int (last region) - int (hd region) + 1
              in scan_columns word_label rest
                   (cp @ [(i, hd region, last region)], if len > max_len then len else max_len))"

subsection \<open>Pivot points\<close>

text \<open>
  The variables of the pivot loop.  \<open>pp\<close> holds \<^verbatim>\<open>None\<close> or a pair \<open>(x, cy)\<close>.
\<close>

record pivots =
  cp_section :: "(real \<times> real) list"
  pp :: "(real \<times> real) option list"
  seg_height :: "int list"
  seg_num :: nat
  num_sec :: nat
  prev_h :: int

text \<open>
  The part of the loop body from \<^verbatim>\<open># accumulate center points\<close> on.
  \<^verbatim>\<open>
  cy = (sy + ey) * 0.5
  cur_h = ey - sy + 1
  cp_section[seg_num] = [cp_section[seg_num][0] + x, cp_section[seg_num][1] + cy]
  num_sec += 1
  if seg_num % 2 == 0:
      continue  # No polygon area
  if prev_h < cur_h:
      pp[int((seg_num - 1) / 2)] = (x, cy)
      seg_height[int((seg_num - 1) / 2)] = cur_h
      prev_h = cur_h
  \<close>
\<close>

definition accumulate :: "nat \<times> nat \<times> nat \<Rightarrow> pivots \<Rightarrow> pivots" where
  "accumulate c s =
     (case c of (x, sy, ey) \<Rightarrow>
        let cy = (real sy + real ey) * 0.5;
            cur_h = int ey - int sy + 1;
            n = seg_num s;
            s1 = s\<lparr>cp_section := (cp_section s)
                     [n := (fst (cp_section s ! n) + real x, snd (cp_section s ! n) + cy)],
                   num_sec := num_sec s + 1\<rparr>
        in if n mod 2 = 0 then s1
           else if prev_h s1 < cur_h
             then s1\<lparr>pp := (pp s1)[(n - 1) div 2 := Some (real x, cy)],
                     seg_height := (seg_height s1)[(n - 1) div 2 := cur_h],
                     prev_h := cur_h\<rparr>
             else s1)"

text \<open>
  \<^verbatim>\<open>
  for i in range(0, len(cp)):
      (x, sy, ey) = cp[i]
      if (seg_num + 1) * seg_w <= x and seg_num <= tot_seg:
          # average previous segment
          if num_sec == 0:
              break
          cp_section[seg_num] = [cp_section[seg_num][0] / num_sec,
                                 cp_section[seg_num][1] / num_sec]
          num_sec = 0
          # reset variables
          seg_num += 1
          prev_h = -1
      ...
  \<close>
\<close>

fun pivot_loop :: "real \<Rightarrow> nat \<Rightarrow> (nat \<times> nat \<times> nat) list \<Rightarrow> pivots \<Rightarrow> pivots" where
  "pivot_loop seg_w tot_seg [] s = s"
| "pivot_loop seg_w tot_seg (c # rest) s =
     (if (real (seg_num s) + 1) * seg_w \<le> real (fst c) \<and> seg_num s \<le> tot_seg then
        (if num_sec s = 0 then s
         else pivot_loop seg_w tot_seg rest
                (accumulate c
                   (s\<lparr>cp_section := (cp_section s)
                        [seg_num s := (fst (cp_section s ! seg_num s) / real (num_sec s),
                                       snd (cp_section s ! seg_num s) / real (num_sec s))],
                      num_sec := 0,
                      seg_num := seg_num s + 1,
                      prev_h := - 1\<rparr>)))
      else pivot_loop seg_w tot_seg rest (accumulate c s))"

text \<open>
  \<^verbatim>\<open>
  if num_sec != 0:
      cp_section[-1] = [cp_section[-1][0] / num_sec, cp_section[-1][1] / num_sec]
  \<close>
\<close>

definition last_segment :: "pivots \<Rightarrow> pivots" where
  "last_segment s =
     (if num_sec s \<noteq> 0
      then s\<lparr>cp_section := (cp_section s)
               [length (cp_section s) - 1 :=
                  (fst (last (cp_section s)) / real (num_sec s),
                   snd (last (cp_section s)) / real (num_sec s))]\<rparr>
      else s)"

text \<open>\<^verbatim>\<open>np.max\<close> and \<^verbatim>\<open>np.median\<close> of the five segment heights.\<close>

definition np_max_int :: "int list \<Rightarrow> int" where
  "np_max_int v = fold max (tl v) (hd v)"

definition np_median :: "int list \<Rightarrow> real" where
  "np_median v =
     (let s = sort v; n = length v
      in if n mod 2 = 1 then real_of_int (s ! (n div 2))
         else (real_of_int (s ! (n div 2 - 1)) + real_of_int (s ! (n div 2))) / 2)"

subsection \<open>Horizontal pivots\<close>

text \<open>\<^verbatim>\<open>math.atan2(dy, dx)\<close>.\<close>

definition atan2 :: "real \<Rightarrow> real \<Rightarrow> real" where
  "atan2 y x =
     (if 0 < x then arctan (y / x)
      else if x < 0 \<and> 0 \<le> y then arctan (y / x) + pi
      else if x < 0 then arctan (y / x) - pi
      else if 0 < y then pi / 2
      else if y < 0 then - pi / 2
      else 0)"

type_synonym quad = "real \<times> real \<times> real \<times> real"

text \<open>
  \<^verbatim>\<open>
  for i, (x, cy) in enumerate(pp):
      dx = cp_section[i * 2 + 2][0] - cp_section[i * 2][0]
      dy = cp_section[i * 2 + 2][1] - cp_section[i * 2][1]
      if dx == 0:  # gradient if zero
          new_pp.append([x, cy - half_char_h, x, cy + half_char_h])
          continue
      rad = -math.atan2(dy, dx)
      c, s = half_char_h * math.cos(rad), half_char_h * math.sin(rad)
      new_pp.append([x - s, cy - c, x + s, cy + c])
  \<close>
\<close>

definition horizontal_pivot :: "(real \<times> real) list \<Rightarrow> real \<Rightarrow> nat \<Rightarrow> real \<times> real \<Rightarrow> quad" where
  "horizontal_pivot cps half_char_h i p =
     (case p of (x, cy) \<Rightarrow>
        let dx = fst (cps ! (i * 2 + 2)) - fst (cps ! (i * 2));
            dy = snd (cps ! (i * 2 + 2)) - snd (cps ! (i * 2))
        in if dx = 0 then (x, cy - half_char_h, x, cy + half_char_h)
           else let rad = - atan2 dy dx;
                    c = half_char_h * cos rad;
                    s = half_char_h * sin rad
                in (x - s, cy - c, x + s, cy + c))"

definition make_new_pp :: "(real \<times> real) list \<Rightarrow> real \<Rightarrow> (real \<times> real) list \<Rightarrow> quad list" where
  "make_new_pp cps half_char_h ps =
     map (\<lambda>(i, p). horizontal_pivot cps half_char_h i p) (enumerate 0 ps)"

subsection \<open>The search for the two end caps\<close>

text \<open>\<^verbatim>\<open>np.arange(start, stop, step)\<close>.\<close>

definition np_arange :: "real \<Rightarrow> real \<Rightarrow> real \<Rightarrow> real list" where
  "np_arange start stop step =
     map (\<lambda>i. start + real i * step) [0..<nat \<lceil>(stop - start) / step\<rceil>]"

text \<open>\<^verbatim>\<open>np.sum(np.logical_and(word_label, line_img))\<close>.\<close>

definition np_sum_logical_and :: "nat img \<Rightarrow> nat img \<Rightarrow> nat" where
  "np_sum_logical_and a b =
     sum_list (map (\<lambda>(ra, rb). length (filter (\<lambda>(x, y). x \<noteq> 0 \<and> y \<noteq> 0) (zip ra rb))) (zip a b))"

record caps =
  isSppFound :: bool
  isEppFound :: bool
  spp :: "quad option"
  epp :: "quad option"

definition quad_sub :: "quad \<Rightarrow> quad \<Rightarrow> quad" where
  "quad_sub p q =
     (case p of (a, b, c, d) \<Rightarrow> case q of (a', b', c', d') \<Rightarrow> (a - a', b - b', c - c', d - d'))"

definition quad_add :: "quad \<Rightarrow> quad \<Rightarrow> quad" where
  "quad_add p q =
     (case p of (a, b, c, d) \<Rightarrow> case q of (a', b', c', d') \<Rightarrow> (a + a', b + b', c + c', d + d'))"

text \<open>
  Whether the segment between the two end points of \<open>p\<close>, drawn by
  \<^verbatim>\<open>cv2.line\<close> on a zero image of the shape of \<open>word_label\<close>, misses every
  foreground pixel of \<open>word_label\<close>.
\<close>

definition line_is_clear :: "cv2 \<Rightarrow> nat img \<Rightarrow> quad \<Rightarrow> bool" where
  "line_is_clear cv word_label p =
     (case p of (a, b, c, d) \<Rightarrow>
        np_sum_logical_and word_label
          (line cv (shape word_label) (py_int a, py_int b) (py_int c, py_int d)) = 0)"

text \<open>
  One iteration of \<^verbatim>\<open>for r in np.arange(0.5, max_r, step_r)\<close>, up to the test
  that leaves the loop.
\<close>

definition cap_step :: "cv2 \<Rightarrow> nat img \<Rightarrow> real \<Rightarrow> real \<Rightarrow> real \<Rightarrow> quad list \<Rightarrow> real \<Rightarrow> caps \<Rightarrow> caps" where
  "cap_step cv word_label half_char_h grad_s grad_e new_pp r s =
     (let dx = 2 * half_char_h * r;
          s1 = (if \<not> isSppFound s then
                  (let dy = grad_s * dx;
                       p = quad_sub (hd new_pp) (dx, dy, dx, dy)
                   in if line_is_clear cv word_label p \<or> r + 2 * step_r \<ge> max_r
                      then s\<lparr>spp := Some p, isSppFound := True\<rparr> else s)
                else s)
      in (if \<not> isEppFound s1 then
            (let dy = grad_e * dx;
                 p = quad_add (last new_pp) (dx, dy, dx, dy)
             in if line_is_clear cv word_label p \<or> r + 2 * step_r \<ge> max_r
                then s1\<lparr>epp := Some p, isEppFound := True\<rparr> else s1)
          else s1))"

fun cap_loop :: "cv2 \<Rightarrow> nat img \<Rightarrow> real \<Rightarrow> real \<Rightarrow> real \<Rightarrow> quad list \<Rightarrow> real list \<Rightarrow> caps \<Rightarrow> caps" where
  "cap_loop cv word_label half_char_h grad_s grad_e new_pp [] s = s"
| "cap_loop cv word_label half_char_h grad_s grad_e new_pp (r # rs) s =
     (let s' = cap_step cv word_label half_char_h grad_s grad_e new_pp r s
      in if isSppFound s' \<and> isEppFound s' then s'
         else cap_loop cv word_label half_char_h grad_s grad_e new_pp rs s')"

text \<open>
  The whole search, from the pivots: the two gradients, then the loop from both
  flags \<^verbatim>\<open>False\<close>.  The x coordinates of the pivots are taken in different
  segments of the strip, so the divisors are not zero.
\<close>

definition find_caps :: "cv2 \<Rightarrow> nat img \<Rightarrow> real \<Rightarrow> (real \<times> real) list \<Rightarrow> quad list \<Rightarrow> caps" where
  "find_caps cv word_label half_char_h ps new_pp =
     (let n = length ps;
          grad_s = (snd (ps ! 1) - snd (ps ! 0)) / (fst (ps ! 1) - fst (ps ! 0)) +
                   (snd (ps ! 2) - snd (ps ! 1)) / (fst (ps ! 2) - fst (ps ! 1));
          grad_e = (snd (ps ! (n - 2)) - snd (ps ! (n - 1))) /
                     (fst (ps ! (n - 2)) - fst (ps ! (n - 1))) +
                   (snd (ps ! (n - 3)) - snd (ps ! (n - 2))) /
                     (fst (ps ! (n - 3)) - fst (ps ! (n - 2)))
      in cap_loop cv word_label half_char_h grad_s grad_e new_pp
           (np_arange 0.5 max_r step_r)
           \<lparr>isSppFound = False, isEppFound = False, spp = None, epp = None\<rparr>)"

subsection \<open>The final polygon\<close>

text \<open>
  \<^verbatim>\<open>
  poly.append(warpCoord(Minv, (spp[0], spp[1])))
  for p in new_pp:
      poly.append(warpCoord(Minv, (p[0], p[1])))
  poly.append(warpCoord(Minv, (epp[0], epp[1])))
  poly.append(warpCoord(Minv, (epp[2], epp[3])))
  for p in reversed(new_pp):
      poly.append(warpCoord(Minv, (p[2], p[3])))
  poly.append(warpCoord(Minv, (spp[2], spp[3])))
  \<close>
\<close>

definition upper :: "quad \<Rightarrow> point" where
  "upper p = (case p of (a, b, c, d) \<Rightarrow> (a, b))"

definition lower :: "quad \<Rightarrow> point" where
  "lower p = (case p of (a, b, c, d) \<Rightarrow> (c, d))"

definition make_poly :: "mat \<Rightarrow> quad \<Rightarrow> quad list \<Rightarrow> quad \<Rightarrow> poly" where
  "make_poly Minv sp new_pp ep =
     [warpCoord Minv (upper sp)] @ map (\<lambda>p. warpCoord Minv (upper p)) new_pp @
     [warpCoord Minv (upper ep), warpCoord Minv (lower ep)] @
     map (\<lambda>p. warpCoord Minv (lower p)) (rev new_pp) @ [warpCoord Minv (lower sp)]"

subsection \<open>One box, and the loop over the boxes\<close>

text \<open>
  The body of \<^verbatim>\<open>for k, box in enumerate(boxes)\<close>; the result is what the
  iteration appends to \<^verbatim>\<open>polys\<close>, \<open>None\<close> for \<^verbatim>\<open>None\<close>, or the
  \<^verbatim>\<open>IndexError\<close> of \<^verbatim>\<open>mapper[k]\<close> when \<open>mapper\<close> is shorter than \<open>boxes\<close>.  The strip has \<open>h\<close>
  rows and \<open>w\<close> columns.  \<^verbatim>\<open>word_label[word_label != cur_label] = 0\<close> followed
  by \<^verbatim>\<open>word_label[word_label > 0] = 1\<close> is \<open>binarize\<close>.
\<close>

definition binarize :: "nat \<Rightarrow> nat img \<Rightarrow> nat img" where
  "binarize cur_label a =
     map (map (\<lambda>v. let v' = (if v \<noteq> cur_label then 0 else v) in if v' > 0 then 1 else v')) a"

text \<open>
  \<^verbatim>\<open>w, h = (int(np.linalg.norm(box[0] - box[1]) + 1),
          int(np.linalg.norm(box[1] - box[2]) + 1))\<close> and
  \<^verbatim>\<open>tar = np.float32([[0, 0], [w, 0], [w, h], [0, h]])\<close>.
  The sum \<^verbatim>\<open>norm + 1\<close> is a floating-point number of \<open>scalar_bits\<close> bits.
\<close>

definition strip_size :: "cv2 \<Rightarrow> box \<Rightarrow> int \<times> int" where
  "strip_size cv box =
     (py_int (fl (scalar_bits cv) (np_norm cv (box ! 0) (box ! 1) + 1)),
      py_int (fl (scalar_bits cv) (np_norm cv (box ! 1) (box ! 2) + 1)))"

definition target_rect :: "int \<Rightarrow> int \<Rightarrow> box" where
  "target_rect w h =
     [(0, 0), (real_of_int w, 0), (real_of_int w, real_of_int h), (0, real_of_int h)]"

text \<open>
  The body from \<^verbatim>\<open># pass if num of pivots is not sufficient\<close> to its end, for
  the variables \<open>s\<close> the pivot loop leaves.
\<close>

definition fit_pivots :: "cv2 \<Rightarrow> nat img \<Rightarrow> mat \<Rightarrow> real \<Rightarrow> pivots \<Rightarrow> poly option" where
  "fit_pivots cv word_label Minv seg_w s =
     (if None \<in> set (pp s) \<or> seg_w < real_of_int (np_max_int (seg_height s)) * 0.25
      then None
      else
        let half_char_h = np_median (seg_height s) * expand_ratio / 2;
            ps = map the (pp s);
            new_pp = make_new_pp (cp_section s) half_char_h ps;
            c = find_caps cv word_label half_char_h ps new_pp
        in if \<not> (isSppFound c \<and> isEppFound c) then None
           else case (spp c, epp c) of
                  (Some sp, Some ep) \<Rightarrow> Some (make_poly Minv sp new_pp ep)
                | _ \<Rightarrow> None)"

text \<open>The body from \<^verbatim>\<open>""" Polygon generation """\<close> on, for the binarized strip.\<close>

definition fit_strip :: "cv2 \<Rightarrow> nat img \<Rightarrow> int \<Rightarrow> int \<Rightarrow> mat \<Rightarrow> poly option" where
  "fit_strip cv word_label w h Minv =
     (let (cp, max_len) = scan_columns word_label [0..<nat w] ([], - 1)
      in if real_of_int h * max_len_ratio < real_of_int max_len then None
         else
           let tot_seg = num_cp * 2 + 1;
               seg_w = real_of_int w / real tot_seg;
               s = last_segment (pivot_loop seg_w tot_seg cp
                     \<lparr>cp_section = replicate tot_seg (0, 0),
                      pp = replicate num_cp None,
                      seg_height = replicate num_cp 0,
                      seg_num = 0, num_sec = 0, prev_h = - 1\<rparr>)
           in fit_pivots cv word_label Minv seg_w s)"

definition fit_box :: "cv2 \<Rightarrow> nat img \<Rightarrow> nat list \<Rightarrow> nat \<Rightarrow> box \<Rightarrow> error + poly option" where
  "fit_box cv labels mapper k box =
     (let (w, h) = strip_size cv box
      in if w < 10 \<or> h < 10 then Inr None
         else
           let tar = target_rect w h;
               M = getPerspectiveTransform cv box tar;
               warped = warpPerspective cv labels M (nat w, nat h)
           in case np_linalg_inv M of
                None \<Rightarrow> Inr None
              | Some Minv \<Rightarrow>
                  if k < length mapper
                  then let cur_label = mapper ! k;
                           word_label = binarize cur_label warped
                       in Inr (fit_strip cv word_label w h Minv)
                  else Inl IndexError)"

text \<open>
  \<^verbatim>\<open>
  polys = []
  for k, box in enumerate(boxes):
      ...
  return polys
  \<close>
  Every path through the body that does not raise appends one entry.  The
  argument \<open>linkmap\<close> is not used by the source.
\<close>

fun poly_loop :: "cv2 \<Rightarrow> nat img \<Rightarrow> nat list \<Rightarrow> (nat \<times> box) list \<Rightarrow> poly option list \<Rightarrow>
    error + poly option list" where
  "poly_loop cv labels mapper [] polys = Inr polys"
| "poly_loop cv labels mapper ((k, box) # rest) polys =
     (case fit_box cv labels mapper k box of
        Inl e \<Rightarrow> Inl e
      | Inr p \<Rightarrow> poly_loop cv labels mapper rest (polys @ [p]))"

definition getPoly_core :: "cv2 \<Rightarrow> box list \<Rightarrow> nat img \<Rightarrow> nat list \<Rightarrow> real img \<Rightarrow>
    error + poly option list" where
  "getPoly_core cv boxes labels mapper linkmap =
     poly_loop cv labels mapper (enumerate 0 boxes) []"

section \<open>The library primitives on axis-aligned input\<close>

text \<open>
  To run the model on concrete inputs the library functions need values.  The
  following definitions give them for the inputs used below, whose boxes are
  parallelograms and whose lines are vertical: the perspective transform between
  two parallelograms is the affine map fixed by the corners 0, 1 and 3; warping
  with nearest-neighbour interpolation reads, for every pixel of the strip, the
  source pixel nearest to its preimage (0 outside the image); a line is the set of
  pixels stepped through along its longer axis, clipped to the image; and the
  minimal-area rectangle of a point set that fills an axis-aligned rectangle is
  its bounding box.
\<close>

definition affine_transform :: "box \<Rightarrow> box \<Rightarrow> mat" where
  "affine_transform src dst =
     (let ux = fst (src ! 1) - fst (src ! 0); uy = snd (src ! 1) - snd (src ! 0);
          vx = fst (src ! 3) - fst (src ! 0); vy = snd (src ! 3) - snd (src ! 0);
          px = fst (dst ! 1) - fst (dst ! 0); py = snd (dst ! 1) - snd (dst ! 0);
          qx = fst (dst ! 3) - fst (dst ! 0); qy = snd (dst ! 3) - snd (dst ! 0);
          d = ux * vy - uy * vx;
          a11 = (px * vy - qx * uy) / d; a12 = (qx * ux - px * vx) / d;
          a21 = (py * vy - qy * uy) / d; a22 = (qy * ux - py * vx) / d
      in [[a11, a12, fst (dst ! 0) - (a11 * fst (src ! 0) + a12 * snd (src ! 0))],
          [a21, a22, snd (dst ! 0) - (a21 * fst (src ! 0) + a22 * snd (src ! 0))],
          [0, 0, 1]])"

definition warp_nearest :: "nat img \<Rightarrow> mat \<Rightarrow> nat \<times> nat \<Rightarrow> nat img" where
  "warp_nearest src M dsize =
     (case np_linalg_inv M of
        None \<Rightarrow> replicate (snd dsize) (replicate (fst dsize) 0)
      | Some Minv \<Rightarrow>
          map (\<lambda>y. map (\<lambda>x.
                 let p = warpCoord Minv (real x, real y);
                     c = round (fst p); r = round (snd p)
                 in if 0 \<le> r \<and> r < int (length src) \<and> 0 \<le> c \<and> c < int (length (src ! nat r))
                    then src ! nat r ! nat c else 0)
               [0..<fst dsize])
            [0..<snd dsize])"

definition draw_line :: "nat \<times> nat \<Rightarrow> int \<times> int \<Rightarrow> int \<times> int \<Rightarrow> nat img" where
  "draw_line shp p q =
     (let n = max \<bar>fst q - fst p\<bar> \<bar>snd q - snd p\<bar>;
          pts = map (\<lambda>i. if n = 0 then p
                          else (fst p + round (real_of_int (i * (fst q - fst p)) / real_of_int n),
                                snd p + round (real_of_int (i * (snd q - snd p)) / real_of_int n)))
                  [0..n]
      in map (\<lambda>r. map (\<lambda>c. if (int c, int r) \<in> set pts then 1 else 0) [0..<snd shp])
           [0..<fst shp])"

definition bounding_box :: "(int \<times> int) list \<Rightarrow> error + box" where
  "bounding_box pts =
     (if pts = [] then Inl CvError
      else let xs = map fst pts; ys = map snd pts;
               l = real_of_int (fold min (tl xs) (hd xs));
               r = real_of_int (fold max (tl xs) (hd xs));
               t = real_of_int (fold min (tl ys) (hd ys));
               b = real_of_int (fold max (tl ys) (hd ys))
           in Inr [(l, b), (l, t), (r, t), (r, b)])"

text \<open>
  The sum of the two squares with every operation in \<^verbatim>\<open>float32\<close>, and the
  scalar sum promoted to \<^verbatim>\<open>float64\<close>.
\<close>

definition dot_float32 :: "real \<times> real \<Rightarrow> real" where
  "dot_float32 x = fl 24 (fl 24 (fst x * fst x) + fl 24 (snd x * snd x))"

definition cv_axis :: cv2 where
  "cv_axis = \<lparr>minAreaRect_boxPoints = bounding_box,
              getPerspectiveTransform = affine_transform,
              warpPerspective = warp_nearest,
              line = draw_line,
              np_dot = dot_float32,
              scalar_bits = 53\<rparr>"

text \<open>
  A label image of 10 rows and 11 columns whose rows 4 and 5 carry the label 1,
  and a box of width 10.5 and height 9.5 over it.
\<close>

definition labels_band :: "nat img" where
  "labels_band = map (\<lambda>r. replicate 11 (if r = 4 \<or> r = 5 then 1 else 0)) [0..<10]"

definition box_band :: box where
  "box_band = [(0, 0), (10.5, 0), (10.5, 9.5), (0, 9.5)]"

text \<open>
  The variables the pivot loop leaves on the strip of \<open>box_band\<close>, the horizontal
  pivots, and the polygon \<^verbatim>\<open>getPoly_core\<close> returns for the box.
\<close>

definition s_band :: pivots where
  "s_band = \<lparr>cp_section = [(0, 9/2), (1, 9/2), (2, 9/2), (3, 9/2), (4, 9/2), (5, 9/2), (6, 9/2), (7, 9/2),
       (8, 9/2), (9, 9/2), (10, 9/2)],
     pp = [Some (1, 9/2), Some (3, 9/2), Some (5, 9/2), Some (7, 9/2), Some (9, 9/2)],
     seg_height = [2, 2, 2, 2, 2], seg_num = 10, num_sec = 1, prev_h = - 1\<rparr>"

definition npp_band :: "quad list" where
  "npp_band = [(1, 61/20, 1, 119/20), (3, 61/20, 3, 119/20), (5, 61/20, 5, 119/20), (7, 61/20, 7, 119/20),
      (9, 61/20, 9, 119/20)]"

definition poly_band :: poly where
  "poly_band =
     [(- 2163 / 2200, 1159 / 400),
      (21 / 22, 1159 / 400), (63 / 22, 1159 / 400), (105 / 22, 1159 / 400),
      (147 / 22, 1159 / 400), (189 / 22, 1159 / 400),
      (23163 / 2200, 1159 / 400), (23163 / 2200, 2261 / 400),
      (189 / 22, 2261 / 400), (147 / 22, 2261 / 400), (105 / 22, 2261 / 400),
      (63 / 22, 2261 / 400), (21 / 22, 2261 / 400),
      (- 2163 / 2200, 2261 / 400)]"

text \<open>
  The point whose coordinates are the \<^verbatim>\<open>float32\<close> numbers nearest to 5.4 and 7.2.
  Its exact distance from the origin is a little less than 9.
\<close>

definition edge_end :: point where
  "edge_end = (11324621 / 2097152, 7549747 / 1048576)"

text \<open>A box whose four corners lie on one line.\<close>

definition box_flat :: box where
  "box_flat = [(0, 0), (20, 0), (40, 0), (60, 0)]"

section \<open>Box extraction: \<^verbatim>\<open>getDetBoxes_core\<close>\<close>

subsection \<open>Thresholding and broadcasting\<close>

text \<open>
  \<^verbatim>\<open>cv2.threshold(src, thresh, maxval, 0)\<close> (type 0 is \<^verbatim>\<open>THRESH_BINARY\<close>):
  \<open>maxval\<close> where the source is greater than \<open>thresh\<close>, 0 elsewhere.
\<close>

definition cv_threshold :: "real img \<Rightarrow> real \<Rightarrow> real \<Rightarrow> real img" where
  "cv_threshold src thresh maxval = map (map (\<lambda>v. if v > thresh then maxval else 0)) src"

text \<open>
  NumPy applies a binary operation to two arrays of different shapes when, in
  each dimension, the sizes are equal or one of them is 1 (the array of size 1 is
  repeated); otherwise it raises \<^verbatim>\<open>ValueError\<close>.
\<close>

definition broadcastable :: "nat \<times> nat \<Rightarrow> nat \<times> nat \<Rightarrow> bool" where
  "broadcastable s t =
     ((fst s = fst t \<or> fst s = 1 \<or> fst t = 1) \<and> (snd s = snd t \<or> snd s = 1 \<or> snd t = 1))"

definition bcast_get :: "'a img \<Rightarrow> nat \<Rightarrow> nat \<Rightarrow> 'a" where
  "bcast_get a r c =
     a ! (if fst (shape a) = 1 then 0 else r) ! (if snd (shape a) = 1 then 0 else c)"

definition np_broadcast2 :: "('a \<Rightarrow> 'b \<Rightarrow> 'c) \<Rightarrow> 'a img \<Rightarrow> 'b img \<Rightarrow> error + 'c img" where
  "np_broadcast2 f a b =
     (if broadcastable (shape a) (shape b)
      then Inr (map (\<lambda>r. map (\<lambda>c. f (bcast_get a r c) (bcast_get b r c))
                           [0..<max (snd (shape a)) (snd (shape b))])
                  [0..<max (fst (shape a)) (fst (shape b))])
      else Inl ValueError)"

subsection \<open>Connected components\<close>

text \<open>
  A pixel is a pair (row, column).  \<open>pixels_where P a\<close> lists the pixels of \<open>a\<close>
  whose value satisfies \<open>P\<close>, row by row.
\<close>

type_synonym pixel = "nat \<times> nat"

definition pixels_where :: "('a \<Rightarrow> bool) \<Rightarrow> 'a img \<Rightarrow> pixel list" where
  "pixels_where P a =
     concat (map (\<lambda>r. map (\<lambda>c. (r, c)) (filter (\<lambda>c. P (a ! r ! c)) [0..<length (a ! r)]))
               [0..<length a])"

definition adjacent4 :: "pixel \<Rightarrow> pixel \<Rightarrow> bool" where
  "adjacent4 p q =
     ((fst p = fst q \<and> (snd p = Suc (snd q) \<or> snd q = Suc (snd p))) \<or>
      (snd p = snd q \<and> (fst p = Suc (fst q) \<or> fst q = Suc (fst p))))"

text \<open>
  \<open>grow n region rest\<close> adds to \<open>region\<close> the pixels of \<open>rest\<close> that are 4-adjacent
  to it, at most \<open>n\<close> times over; with \<open>n\<close> the length of \<open>rest\<close> nothing is left
  to add.  \<open>components\<close> takes the first pixel, its component, and goes on with
  the pixels outside of it.
\<close>

fun grow :: "nat \<Rightarrow> pixel list \<Rightarrow> pixel list \<Rightarrow> pixel list" where
  "grow 0 region rest = region"
| "grow (Suc n) region rest =
     (let new = filter (\<lambda>q. list_ex (\<lambda>p. adjacent4 p q) region) rest
      in if new = [] then region
         else grow n (region @ new) (filter (\<lambda>q. q \<notin> set new) rest))"

function components :: "pixel list \<Rightarrow> pixel list list" where
  "components [] = []"
| "components (p # ps) =
     grow (length ps) [p] ps # components (filter (\<lambda>q. q \<notin> set (grow (length ps) [p] ps)) ps)"
  by pat_completeness auto
termination
  by (relation "measure length") (auto simp: le_imp_less_Suc)

fun label_of :: "pixel list list \<Rightarrow> nat \<Rightarrow> pixel \<Rightarrow> nat" where
  "label_of [] k p = 0"
| "label_of (c # cs) k p = (if p \<in> set c then k else label_of cs (Suc k) p)"

record cc_stat =
  cc_left :: nat
  cc_top :: nat
  cc_width :: nat
  cc_height :: nat
  cc_area :: nat

definition list_min :: "nat list \<Rightarrow> nat" where
  "list_min v = (case v of [] \<Rightarrow> 0 | x # r \<Rightarrow> fold min r x)"

definition list_max :: "nat list \<Rightarrow> nat" where
  "list_max v = (case v of [] \<Rightarrow> 0 | x # r \<Rightarrow> fold max r x)"

definition stat_of :: "nat img \<Rightarrow> nat \<Rightarrow> cc_stat" where
  "stat_of labels k =
     (let ps = pixels_where (\<lambda>v. v = k) labels; rs = map fst ps; cs = map snd ps
      in \<lparr>cc_left = list_min cs, cc_top = list_min rs,
          cc_width = list_max cs - list_min cs + 1,
          cc_height = list_max rs - list_min rs + 1,
          cc_area = length ps\<rparr>)"

text \<open>
  \<^verbatim>\<open>cv2.connectedComponentsWithStats(img, connectivity=4)\<close>: the number of labels
  (the background label 0 and one label for every component of non-zero pixels),
  the label image and, for every label, the bounding box and the number of pixels
  that carry it.  Components are numbered in the order of their first pixel.
\<close>

definition connectedComponentsWithStats :: "nat img \<Rightarrow> nat \<times> nat img \<times> cc_stat list" where
  "connectedComponentsWithStats a =
     (let comps = components (pixels_where (\<lambda>v. v \<noteq> 0) a);
          nLabels = 1 + length comps;
          labels = map (\<lambda>r. map (\<lambda>c. label_of comps 1 (r, c)) [0..<length (a ! r)])
                     [0..<length a]
      in (nLabels, labels, map (stat_of labels) [0..<nLabels]))"

subsection \<open>The body of the loop over the labels\<close>

text \<open>
  \<^verbatim>\<open>textmap[labels == k]\<close> raises \<^verbatim>\<open>IndexError\<close> when the mask has not the
  shape of the array, and \<^verbatim>\<open>np.max\<close> raises \<^verbatim>\<open>ValueError\<close> on an empty array.
\<close>

definition masked_values :: "real img \<Rightarrow> nat img \<Rightarrow> nat \<Rightarrow> error + real list" where
  "masked_values a labels k =
     (if shape labels \<noteq> shape a then Inl IndexError
      else Inr (map (\<lambda>(r, c). a ! r ! c) (pixels_where (\<lambda>v. v = k) labels)))"

definition np_max :: "real list \<Rightarrow> error + real" where
  "np_max v = (case v of [] \<Rightarrow> Inl ValueError | x # r \<Rightarrow> Inr (fold max r x))"

text \<open>
  \<^verbatim>\<open>
  segmap = np.zeros(textmap.shape, dtype=np.uint8)
  segmap[labels == k] = 255
  segmap[np.logical_and(link_score == 1, text_score == 0)] = 0
  \<close>
  The first assignment is reached only after \<^verbatim>\<open>textmap[labels == k]\<close>, with a
  mask of the shape of \<open>textmap\<close>.
\<close>

definition make_segmap :: "nat \<times> nat \<Rightarrow> nat img \<Rightarrow> nat \<Rightarrow> nat img" where
  "make_segmap shp labels k =
     map (\<lambda>r. map (\<lambda>c. if labels ! r ! c = k then 255 else 0) [0..<snd shp]) [0..<fst shp]"

definition remove_link_area :: "nat img \<Rightarrow> real img \<Rightarrow> real img \<Rightarrow> error + nat img" where
  "remove_link_area segmap link_score text_score =
     (case np_broadcast2 (\<lambda>l t. l = 1 \<and> t = 0) link_score text_score of
        Inl e \<Rightarrow> Inl e
      | Inr msk \<Rightarrow>
          if shape msk \<noteq> shape segmap then Inl IndexError
          else Inr (map (\<lambda>(srow, mrow). map (\<lambda>(v, m). if m then 0 else v) (zip srow mrow))
                      (zip segmap msk)))"

text \<open>The cleaned segmentation map of the label \<open>k\<close>, from the inputs of the loop.\<close>

definition cleaned_segmap :: "real img \<Rightarrow> real img \<Rightarrow> real img \<Rightarrow> nat img \<Rightarrow> nat \<Rightarrow> error + nat img" where
  "cleaned_segmap textmap text_score link_score labels k =
     remove_link_area (make_segmap (shape textmap) labels k) link_score text_score"

text \<open>
  \<^verbatim>\<open>
  word_chars, word_label, word_stats, word_centroid = cv2.connectedComponentsWithStats(
      segmap.astype(np.uint8), connectivity=4)
  num_characters.append(word_chars)
  avg_character_size = np.mean(word_stats[:, 4])
  \<close>
\<close>

definition count_characters :: "nat img \<Rightarrow> nat \<times> real" where
  "count_characters segmap =
     (case connectedComponentsWithStats segmap of
        (word_chars, word_label, word_stats) \<Rightarrow>
          (word_chars, real (sum_list (map cc_area word_stats)) / real (length word_stats)))"

text \<open>
  \<^verbatim>\<open>cv2.dilate\<close> with a square kernel of ones of side \<open>ksize\<close>, anchored at its
  centre: the maximum over the pixels of the source under the kernel.
\<close>

definition cv_dilate :: "nat img \<Rightarrow> nat \<Rightarrow> nat img" where
  "cv_dilate src ksize =
     (let a = int (ksize div 2)
      in map (\<lambda>r. map (\<lambda>c.
               fold max
                 (concat (map (\<lambda>i. concat (map (\<lambda>j.
                    let r' = int r + int i - a; c' = int c + int j - a
                    in if 0 \<le> r' \<and> r' < int (length src) \<and> 0 \<le> c' \<and>
                          c' < int (length (src ! nat r'))
                       then [src ! nat r' ! nat c'] else [])
                    [0..<ksize])) [0..<ksize]))
                 0)
             [0..<length (src ! r)])
           [0..<length src])"

text \<open>\<^verbatim>\<open>a[sy:ey, sx:ex]\<close>, and the assignment of an array to such a window.\<close>

definition slice2 :: "'a img \<Rightarrow> nat \<Rightarrow> nat \<Rightarrow> nat \<Rightarrow> nat \<Rightarrow> 'a img" where
  "slice2 a sy ey sx ex = map (\<lambda>row. take (ex - sx) (drop sx row)) (take (ey - sy) (drop sy a))"

definition paste2 :: "'a img \<Rightarrow> nat \<Rightarrow> nat \<Rightarrow> 'a img \<Rightarrow> 'a img" where
  "paste2 a sy sx b =
     map (\<lambda>r. map (\<lambda>c. if sy \<le> r \<and> r < sy + length b \<and> sx \<le> c \<and>
                           c < sx + length (b ! (r - sy))
                        then b ! (r - sy) ! (c - sx) else a ! r ! c)
                [0..<length (a ! r)])
       [0..<length a]"

text \<open>
  \<^verbatim>\<open>
  x, y = stats[k, cv2.CC_STAT_LEFT], stats[k, cv2.CC_STAT_TOP]
  w, h = stats[k, cv2.CC_STAT_WIDTH], stats[k, cv2.CC_STAT_HEIGHT]
  niter = int(math.sqrt(size * min(w, h) / (w * h)) * 2)
  sx, ex, sy, ey = (x - niter, x + w + niter + 1, y - niter, y + h + niter + 1)
  # boundary check
  if sx < 0: sx = 0
  if sy < 0: sy = 0
  if ex >= img_w: ex = img_w
  if ey >= img_h: ey = img_h
  kernel = cv2.getStructuringElement(cv2.MORPH_RECT, (1 + niter, 1 + niter))
  segmap[sy:ey, sx:ex] = cv2.dilate(segmap[sy:ey, sx:ex], kernel)
  \<close>
  The width and the height of a component are at least 1.
\<close>

definition grow_segmap :: "nat img \<Rightarrow> cc_stat \<Rightarrow> nat \<times> nat \<Rightarrow> nat img" where
  "grow_segmap segmap st shp =
     (let area = cc_area st; x = cc_left st; y = cc_top st; w = cc_width st; h = cc_height st;
          img_h = int (fst shp); img_w = int (snd shp);
          niter = py_int (sqrt (real (area * min w h) / real (w * h)) * 2);
          sx = int x - niter; ex = int x + int w + niter + 1;
          sy = int y - niter; ey = int y + int h + niter + 1;
          sx = (if sx < 0 then 0 else sx);
          sy = (if sy < 0 then 0 else sy);
          ex = (if ex \<ge> img_w then img_w else ex);
          ey = (if ey \<ge> img_h then img_h else ey)
      in paste2 segmap (nat sy) (nat sx)
           (cv_dilate (slice2 segmap (nat sy) (nat ey) (nat sx) (nat ex)) (nat (1 + niter))))"

text \<open>Python's \<^verbatim>\<open>min\<close> and \<^verbatim>\<open>max\<close> of a sequence raise \<^verbatim>\<open>ValueError\<close> when it is empty.\<close>

definition py_min :: "int list \<Rightarrow> error + int" where
  "py_min v = (case v of [] \<Rightarrow> Inl ValueError | x # r \<Rightarrow> Inr (fold min r x))"

definition py_max :: "int list \<Rightarrow> error + int" where
  "py_max v = (case v of [] \<Rightarrow> Inl ValueError | x # r \<Rightarrow> Inr (fold max r x))"

text \<open>
  \<^verbatim>\<open>
  l, r = min(np_contours[:, 0]), max(np_contours[:, 0])
  t, b = min(np_contours[:, 1]), max(np_contours[:, 1])
  box = np.array([[l, t], [r, t], [r, b], [l, b]], dtype=np.float32)
  \<close>
\<close>

definition aligned_box :: "(int \<times> int) list \<Rightarrow> error + box" where
  "aligned_box np_contours =
     (case py_min (map fst np_contours) of Inl e \<Rightarrow> Inl e | Inr l \<Rightarrow>
      case py_max (map fst np_contours) of Inl e \<Rightarrow> Inl e | Inr r \<Rightarrow>
      case py_min (map snd np_contours) of Inl e \<Rightarrow> Inl e | Inr t \<Rightarrow>
      case py_max (map snd np_contours) of Inl e \<Rightarrow> Inl e | Inr b \<Rightarrow>
        Inr [(real_of_int l, real_of_int t), (real_of_int r, real_of_int t),
             (real_of_int r, real_of_int b), (real_of_int l, real_of_int b)])"

text \<open>\<^verbatim>\<open>argmin\<close>: the first index of the least entry.\<close>

definition np_argmin :: "real list \<Rightarrow> nat" where
  "np_argmin v =
     (case v of
        [] \<Rightarrow> 0
      | x # r \<Rightarrow> fst (fold (\<lambda>(i, y) (bi, b). if y < b then (i, y) else (bi, b))
                        (enumerate 1 r) (0, x)))"

text \<open>
  \<^verbatim>\<open>
  def sort_box(box):
      aymin = np.argmin(box[:,1])
      tl=0
      if d(box[aymin,:], box[(aymin+1)%4,:]) > d(box[(aymin+2)%4, :], box[(aymin+1)%4,:]):
          tl = np.argmin(box[:,1])
      else:
          tl = (np.argmin(box[:,1]) -1)%4
      box = box[tl:,:].tolist() + box[:tl,:].tolist()
      return np.array(box).astype(np.float32)
  \<close>
\<close>

definition sort_box :: "cv2 \<Rightarrow> box \<Rightarrow> box" where
  "sort_box cv box =
     (let aymin = np_argmin (map snd box);
          top_left = (if np_norm cv (box ! aymin) (box ! ((aymin + 1) mod 4)) >
                   np_norm cv (box ! ((aymin + 2) mod 4)) (box ! ((aymin + 1) mod 4))
                then aymin
                else nat ((int aymin - 1) mod 4))
      in drop top_left box @ take top_left box)"

text \<open>
  From the dilated map to the box that is appended to \<open>det\<close>.
  \<^verbatim>\<open>
  np_temp = np.roll(np.array(np.where(segmap != 0)), 1, axis=0)
  np_contours = np_temp.transpose().reshape(-1, 2)
  rectangle = cv2.minAreaRect(np_contours)
  box = cv2.boxPoints(rectangle)
  # align diamond-shape
  w, h = np.linalg.norm(box[0] - box[1]), np.linalg.norm(box[1] - box[2])
  box_ratio = max(w, h) / (min(w, h) + 1e-5)
  if abs(1 - box_ratio) <= 0.1:
      ...
  # make clock-wise order
  startidx = box.sum(axis=1).argmin()
  box = np.roll(box, 4 - startidx, 0)
  box = np.array(box)
  det.append(sort_box(box))
  \<close>
  \<^verbatim>\<open>np.roll(box, 4 - startidx, 0)\<close> puts the row \<open>startidx\<close> first.  The
  quotient \<open>box_ratio\<close> and its comparison with 0.1 are taken in exact arithmetic.
\<close>

definition make_box :: "cv2 \<Rightarrow> nat img \<Rightarrow> error + box" where
  "make_box cv segmap =
     (let np_contours = map (\<lambda>(r, c). (int c, int r)) (pixels_where (\<lambda>v. v \<noteq> 0) segmap)
      in case minAreaRect_boxPoints cv np_contours of
           Inl e \<Rightarrow> Inl e
         | Inr box \<Rightarrow>
             let w = np_norm cv (box ! 0) (box ! 1);
                 h = np_norm cv (box ! 1) (box ! 2);
                 box_ratio = max w h / (min w h + 0.00001)
             in case (if \<bar>1 - box_ratio\<bar> \<le> 0.1 then aligned_box np_contours else Inr box) of
                  Inl e \<Rightarrow> Inl e
                | Inr box \<Rightarrow>
                    let startidx = np_argmin (map (\<lambda>p. fst p + snd p) box)
                    in Inr (sort_box cv (rotate startidx box)))"

text \<open>The four lists the loop appends to.\<close>

record lists =
  l_det :: "box list"
  l_mapper :: "nat list"
  l_num_characters :: "nat list"
  l_avg_character_sizes :: "real list"

text \<open>
  The body of \<^verbatim>\<open>for k in range(1, nLabels)\<close>.  An exception leaves the function,
  so the lists are returned only when every iteration has ended.
\<close>

definition label_step :: "cv2 \<Rightarrow> real img \<Rightarrow> real img \<Rightarrow> real img \<Rightarrow> nat img \<Rightarrow> cc_stat list \<Rightarrow>
    real \<Rightarrow> nat \<Rightarrow> lists \<Rightarrow> error + lists" where
  "label_step cv textmap text_score link_score labels stats text_threshold k a =
     (let area = cc_area (stats ! k)
      in if area < 10 then Inr a
         else case masked_values textmap labels k of
           Inl e \<Rightarrow> Inl e
         | Inr vals \<Rightarrow>
             (case np_max vals of
                Inl e \<Rightarrow> Inl e
              | Inr m \<Rightarrow>
                  if m < text_threshold then Inr a
                  else case cleaned_segmap textmap text_score link_score labels k of
                    Inl e \<Rightarrow> Inl e
                  | Inr segmap \<Rightarrow>
                      let a1 = a\<lparr>l_num_characters :=
                                   l_num_characters a @ [fst (count_characters segmap)],
                                 l_avg_character_sizes :=
                                   l_avg_character_sizes a @ [snd (count_characters segmap)]\<rparr>
                      in case make_box cv (grow_segmap segmap (stats ! k) (shape textmap)) of
                           Inl e \<Rightarrow> Inl e
                         | Inr box \<Rightarrow>
                             Inr (a1\<lparr>l_det := l_det a1 @ [box],
                                     l_mapper := l_mapper a1 @ [k]\<rparr>)))"

fun label_loop :: "cv2 \<Rightarrow> real img \<Rightarrow> real img \<Rightarrow> real img \<Rightarrow> nat img \<Rightarrow> cc_stat list \<Rightarrow>
    real \<Rightarrow> nat list \<Rightarrow> lists \<Rightarrow> error + lists" where
  "label_loop cv textmap text_score link_score labels stats text_threshold [] a = Inr a"
| "label_loop cv textmap text_score link_score labels stats text_threshold (k # ks) a =
     (case label_step cv textmap text_score link_score labels stats text_threshold k a of
        Inl e \<Rightarrow> Inl e
      | Inr a' \<Rightarrow> label_loop cv textmap text_score link_score labels stats text_threshold ks a')"

subsection \<open>\<^verbatim>\<open>getDetBoxes_core\<close> and \<^verbatim>\<open>getDetBoxes\<close>\<close>

text \<open>
  \<^verbatim>\<open>
  ret, text_score = cv2.threshold(textmap, low_text, 1, 0)
  ret, link_score = cv2.threshold(linkmap, link_threshold, 1, 0)
  text_score_comb = np.clip(text_score + link_score, 0, 1)
  nLabels, labels, stats, centroids = cv2.connectedComponentsWithStats(
      text_score_comb.astype(np.uint8), connectivity=4)
  \<close>
  The result is the tuple \<^verbatim>\<open>det, labels, mapper, num_characters,
  avg_character_sizes, word_id\<close>.
\<close>

definition getDetBoxes_core :: "cv2 \<Rightarrow> real img \<Rightarrow> real img \<Rightarrow> real \<Rightarrow> real \<Rightarrow> real \<Rightarrow>
    error + (box list \<times> nat img \<times> nat list \<times> nat list \<times> real list \<times> int list)" where
  "getDetBoxes_core cv textmap linkmap text_threshold link_threshold low_text =
     (let text_score = cv_threshold textmap low_text 1;
          link_score = cv_threshold linkmap link_threshold 1
      in case np_broadcast2 (\<lambda>t l. nat \<lfloor>min 1 (max 0 (t + l))\<rfloor>) text_score link_score of
           Inl e \<Rightarrow> Inl e
         | Inr text_score_comb \<Rightarrow>
             (case connectedComponentsWithStats text_score_comb of
                (nLabels, labels, stats) \<Rightarrow>
                  (case label_loop cv textmap text_score link_score labels stats text_threshold
                          [1..<nLabels]
                          \<lparr>l_det = [], l_mapper = [], l_num_characters = [],
                           l_avg_character_sizes = []\<rparr> of
                     Inl e \<Rightarrow> Inl e
                   | Inr a \<Rightarrow>
                       Inr (l_det a, labels, l_mapper a, l_num_characters a,
                            l_avg_character_sizes a,
                            link_boxes (l_det a) (l_avg_character_sizes a)))))"

text \<open>The dictionary \<^verbatim>\<open>getDetBoxes\<close> returns, one field for every key.\<close>

record return_dict =
  r_boxes :: "box list"
  r_labels :: "nat img"
  r_mapper :: "nat list"
  r_num_characters :: "nat list"
  r_average_character_size :: "real list"
  r_word_id :: "int list"
  r_polys :: "poly option list"

definition getDetBoxes :: "cv2 \<Rightarrow> real img \<Rightarrow> real img \<Rightarrow> real \<Rightarrow> real \<Rightarrow> real \<Rightarrow> bool \<Rightarrow>
    error + return_dict" where
  "getDetBoxes cv textmap linkmap text_threshold link_threshold low_text poly =
     (case getDetBoxes_core cv textmap linkmap text_threshold link_threshold low_text of
        Inl e \<Rightarrow> Inl e
      | Inr (boxes, labels, mapper, num_characters, avg_character_size, word_id) \<Rightarrow>
          (case (if poly then getPoly_core cv boxes labels mapper linkmap
                 else Inr (replicate (length boxes) None)) of
             Inl e \<Rightarrow> Inl e
           | Inr polys \<Rightarrow>
               Inr \<lparr>r_boxes = boxes, r_labels = labels, r_mapper = mapper,
                      r_num_characters = num_characters,
                      r_average_character_size = avg_character_size,
                      r_word_id = word_id, r_polys = polys\<rparr>))"

section \<open>Predicates used in the statements\<close>

text \<open>
  The length of the edge between two corners in the words of the specification:
  the exact Euclidean distance, against the number \<open>np_norm\<close> computes.
\<close>

definition spec_edge_length :: "point \<Rightarrow> point \<Rightarrow> real" where
  "spec_edge_length a b = sqrt ((fst a - fst b)\<^sup>2 + (snd a - snd b)\<^sup>2)"

text \<open>
  An entry \<open>v\<close> at index \<open>i\<close> of \<open>word_id\<close>, for \<open>n\<close> boxes: the sentinel, or the
  index of another box.
\<close>

definition ok_entry :: "nat \<Rightarrow> nat \<Rightarrow> int \<Rightarrow> bool" where
  "ok_entry n i v = (v = - 1 \<or> (0 \<le> v \<and> v < int n \<and> v \<noteq> int i))"

text \<open>
  The link between the flags and the variables of the end-cap search: a flag is
  set only together with its variable.
\<close>

definition caps_inv :: "caps \<Rightarrow> bool" where
  "caps_inv s = ((isSppFound s \<longrightarrow> spp s \<noteq> None) \<and> (isEppFound s \<longrightarrow> epp s \<noteq> None))"

text \<open>A box of 30 by 8 pixels, and a link map of the shape of \<open>labels_band\<close>.\<close>

definition box_thin :: box where
  "box_thin = [(0, 0), (30, 0), (30, 8), (0, 8)]"

definition linkmap_zero :: "real img" where
  "linkmap_zero = replicate 10 (replicate 11 0)"

text \<open>
  A text map of 3 rows and 12 columns with a bar of ten pixels of score 1 in its
  middle row, the link map of the same shape without any link, and the shapes
  used to show what happens when the shapes of the two maps differ.
\<close>

definition textmap_bar :: "real img" where
  "textmap_bar =
     [[0, 0, 0, 0, 0, 0, 0, 0, 0, 0, 0, 0],
      [0, 1, 1, 1, 1, 1, 1, 1, 1, 1, 1, 0],
      [0, 0, 0, 0, 0, 0, 0, 0, 0, 0, 0, 0]]"

definition linkmap_bar :: "real img" where
  "linkmap_bar =
     [[0, 0, 0, 0, 0, 0, 0, 0, 0, 0, 0, 0],
      [0, 0, 0, 0, 0, 0, 0, 0, 0, 0, 0, 0],
      [0, 0, 0, 0, 0, 0, 0, 0, 0, 0, 0, 0]]"

text \<open>The label image of \<open>textmap_bar\<close>, its segmentation map, and the map after dilation.\<close>

definition labels_bar :: "nat img" where
  "labels_bar =
     [[0, 0, 0, 0, 0, 0, 0, 0, 0, 0, 0, 0],
      [0, 1, 1, 1, 1, 1, 1, 1, 1, 1, 1, 0],
      [0, 0, 0, 0, 0, 0, 0, 0, 0, 0, 0, 0]]"

definition segmap_bar :: "nat img" where
  "segmap_bar =
     [[0, 0, 0, 0, 0, 0, 0, 0, 0, 0, 0, 0],
      [0, 255, 255, 255, 255, 255, 255, 255, 255, 255, 255, 0],
      [0, 0, 0, 0, 0, 0, 0, 0, 0, 0, 0, 0]]"

definition grown_bar :: "nat img" where
  "grown_bar = replicate 3 (replicate 12 255)"

text \<open>The statistics of \<open>labels_bar\<close>, and the foreground pixels of \<open>grown_bar\<close> as points.\<close>

definition stats_bar :: "cc_stat list" where
  "stats_bar = [\<lparr>cc_left = 0, cc_top = 0, cc_width = 12, cc_height = 3, cc_area = 26\<rparr>,
                \<lparr>cc_left = 1, cc_top = 1, cc_width = 10, cc_height = 1, cc_area = 10\<rparr>]"

definition contours_bar :: "(int \<times> int) list" where
  "contours_bar = map (\<lambda>(r, c). (int c, int r)) (pixels_where (\<lambda>v. v \<noteq> 0) grown_bar)"

text \<open>The record \<^verbatim>\<open>getDetBoxes\<close> returns for \<open>textmap_bar\<close>, with and without polygons.\<close>

definition result_bar :: return_dict where
  "result_bar =
     \<lparr>r_boxes = [[(0, 0), (11, 0), (11, 2), (0, 2)]], r_labels = labels_bar, r_mapper = [1],
      r_num_characters = [2], r_average_character_size = [18], r_word_id = [- 1],
      r_polys = [None]\<rparr>"




text \<open>
  The entries of \<open>num_characters\<close> against the cleaned segmentation maps of the
  labels in \<open>mapper\<close>: one more than the number of components.
\<close>

definition chars_recorded :: "real img \<Rightarrow> real img \<Rightarrow> real img \<Rightarrow> nat img \<Rightarrow> lists \<Rightarrow> bool" where
  "chars_recorded tm ts ls labels a =
     (length (l_num_characters a) = length (l_mapper a) \<and>
      (\<forall>i < length (l_mapper a). \<exists>segmap.
         cleaned_segmap tm ts ls labels (l_mapper a ! i) = Inr segmap \<and>
         l_num_characters a ! i =
           1 + length (components (pixels_where (\<lambda>v. v \<noteq> 0) segmap))))"

text \<open>The lengths of the lists of a result.\<close>

definition lists_aligned :: "lists \<Rightarrow> bool" where
  "lists_aligned a =
     (length (l_mapper a) = length (l_det a) \<and>
      length (l_num_characters a) = length (l_det a) \<and>
      length (l_avg_character_sizes a) = length (l_det a))"

section \<open>Properties of the rounding\<close>

lemma rne_of_int: "rne (real_of_int n) = n"
  by (simp add: rne_def)

lemma rne_bounds: "\<lfloor>y\<rfloor> \<le> rne y" "rne y \<le> \<lfloor>y\<rfloor> + 1"
  by (simp_all add: rne_def Let_def)

lemma rne_mono:
  assumes "x \<le> y"
  shows "rne x \<le> rne y"
proof (cases "\<lfloor>x\<rfloor> = \<lfloor>y\<rfloor>")
  case True
  then show ?thesis using assms by (auto simp: rne_def Let_def)
next
  case False
  then have "\<lfloor>x\<rfloor> < \<lfloor>y\<rfloor>" using assms floor_mono[of x y] by linarith
  then show ?thesis using rne_bounds(2)[of x] rne_bounds(1)[of y] by linarith
qed

lemma rne_minus: "rne (- y) = - rne y"
proof (cases "y = real_of_int \<lfloor>y\<rfloor>")
  case True
  then obtain n where "y = real_of_int n" by blast
  then show ?thesis using rne_of_int[of n] rne_of_int[of "- n"] by simp
next
  case False
  then have "real_of_int \<lfloor>y\<rfloor> < y" using of_int_floor_le[of y] by linarith
  moreover have "y < real_of_int \<lfloor>y\<rfloor> + 1" by linarith
  ultimately have f: "\<lfloor>- y\<rfloor> = - \<lfloor>y\<rfloor> - 1"
    by (intro floor_unique) (simp_all, linarith)
  have "even (- \<lfloor>y\<rfloor> - 1) \<longleftrightarrow> odd \<lfloor>y\<rfloor>" by simp
  then show ?thesis
    unfolding rne_def Let_def f by (auto simp: field_simps)
qed

declare bits.simps [simp del]

lemma bits_bounds: "0 < n \<Longrightarrow> 2 ^ (bits n - 1) \<le> n \<and> n < 2 ^ bits n"
proof (induction n rule: bits.induct)
  case (1 n)
  show ?case
  proof (cases "n div 2 = 0")
    case True
    then have "n = 1" using 1(2) by (simp add: div_eq_0_iff) 
    then show ?thesis by (simp add: bits.simps[of "Suc 0"] bits.simps[of 0])
  next
    case False
    then have ih: "2 ^ (bits (n div 2) - 1) \<le> n div 2" "n div 2 < 2 ^ bits (n div 2)"
      using 1 by simp_all
    have b: "bits n = Suc (bits (n div 2))" using 1(2) by (subst bits.simps) simp
    have pos: "0 < bits (n div 2)" using False by (subst bits.simps) simp
    then have "(2::nat) ^ (bits n - 1) = 2 * 2 ^ (bits (n div 2) - 1)"
      unfolding b by (cases "bits (n div 2)") simp_all
    then have "2 ^ (bits n - 1) \<le> n" using ih(1) by simp
    moreover have "n < 2 ^ bits n" unfolding b using ih(2) by simp
    ultimately show ?thesis by simp
  qed
qed

lemma pow2_le_real:
  "2 ^ a \<le> (n::nat) \<Longrightarrow> (2::real) ^ a \<le> real n"
  "(n::nat) < 2 ^ a \<Longrightarrow> real n + 1 \<le> 2 ^ a"
proof -
  assume "2 ^ a \<le> n"
  then have "real (2 ^ a) \<le> real n" by (simp only: of_nat_le_iff)
  then show "(2::real) ^ a \<le> real n" by simp
next
  assume "n < 2 ^ a"
  then have "n + 1 \<le> 2 ^ a" by simp
  then have "real (n + 1) \<le> real (2 ^ a)" by (simp only: of_nat_le_iff)
  then show "real n + 1 \<le> 2 ^ a" by simp
qed

lemma pow2_le_real_of_int:
  "2 ^ a \<le> (k::int) \<Longrightarrow> (2::real) ^ a \<le> real_of_int k"
  "(k::int) \<le> 2 ^ a \<Longrightarrow> real_of_int k \<le> 2 ^ a"
proof -
  assume "2 ^ a \<le> k"
  then have "real_of_int (2 ^ a) \<le> real_of_int k" by (simp only: of_int_le_iff)
  then show "(2::real) ^ a \<le> real_of_int k" by simp
next
  assume "k \<le> 2 ^ a"
  then have "real_of_int k \<le> real_of_int (2 ^ a)" by (simp only: of_int_le_iff)
  then show "real_of_int k \<le> 2 ^ a" by simp
qed

lemma expo_bounds:
  assumes "x \<noteq> 0"
  shows "2 powr real_of_int (expo x) \<le> \<bar>x\<bar>" and "\<bar>x\<bar> < 2 powr real_of_int (expo x + 1)"
proof -
  have "2 powr real_of_int (expo x) \<le> \<bar>x\<bar> \<and> \<bar>x\<bar> < 2 powr real_of_int (expo x + 1)"
  proof (cases "1 \<le> \<bar>x\<bar>")
    case True
    define n where "n = nat \<lfloor>\<bar>x\<bar>\<rfloor>"
    have n: "0 < n" "real n \<le> \<bar>x\<bar>" "\<bar>x\<bar> < real n + 1"
      using True by (simp_all add: n_def)
    have b: "2 ^ (bits n - 1) \<le> n" "n < 2 ^ bits n" "0 < bits n"
      using bits_bounds[OF n(1)] n(1) by (simp_all add: bits.simps[of n])
    have "(2::real) ^ (bits n - 1) \<le> real n"
      using b(1) by (rule pow2_le_real(1))
    then have lo: "2 powr real_of_int (int (bits n) - 1) \<le> \<bar>x\<bar>"
      using n(2) b(3) by (simp add: powr_realpow[symmetric] of_nat_diff)
    have "real n + 1 \<le> 2 ^ bits n"
      using b(2) by (rule pow2_le_real(2))
    then have hi: "\<bar>x\<bar> < 2 powr real_of_int (int (bits n) - 1 + 1)"
      using n(3) by (simp add: powr_realpow)
    have "expo x = int (bits n) - 1" using True by (simp add: expo_def n_def)
    then show ?thesis using lo hi by simp
  next
    case False
    define y where "y = 1 / \<bar>x\<bar>"
    have y: "1 < y" using False assms by (simp add: y_def)
    define c where "c = nat (\<lceil>y\<rceil> - 1)"
    have c: "real c < y" "y \<le> real c + 1"
      using y by (simp_all add: c_def) linarith+
    define k where "k = bits c"
    have hi: "y \<le> 2 ^ k"
    proof (cases "c = 0")
      case True
      then show ?thesis using c(2) by (simp add: k_def bits.simps[of 0])
    next
      case False
      then have "c < 2 ^ k" using bits_bounds[of c] by (simp add: k_def)
      then have "real c + 1 \<le> 2 ^ k" by (rule pow2_le_real(2))
      then show ?thesis using c(2) by linarith
    qed
    have k0: "0 < k"
    proof (rule ccontr)
      assume "\<not> 0 < k"
      then show False using hi y by simp
    qed
    have lo: "2 ^ (k - 1) < y"
    proof (cases "c = 0")
      case True
      then have "k = 0" by (simp add: k_def bits.simps[of 0])
      then show ?thesis using k0 by simp
    next
      case False
      then have "2 ^ (k - 1) \<le> c" using bits_bounds[of c] by (simp add: k_def)
      then have "(2::real) ^ (k - 1) \<le> real c" by (rule pow2_le_real(1))
      then show ?thesis using c(1) by linarith
    qed
    have x: "\<bar>x\<bar> = 1 / y" using assms by (simp add: y_def)
    have "2 powr real_of_int (- int k) = 1 / 2 ^ k"
      by (simp add: powr_minus_divide powr_realpow)
    also have "\<dots> \<le> 1 / y" using hi y by (intro divide_left_mono) simp_all
    finally have l: "2 powr real_of_int (- int k) \<le> \<bar>x\<bar>" unfolding x .
    have "1 / y < 1 / 2 ^ (k - 1)" using lo y by (intro divide_strict_left_mono) simp_all
    also have "\<dots> = 2 powr real_of_int (- int k + 1)"
    proof -
      have e: "real_of_int (- int k + 1) = - real (k - 1)" using k0 by (simp add: of_nat_diff)
      have "2 powr real_of_int (- int k + 1) = 2 powr (- real (k - 1))" by (simp only: e)
      also have "\<dots> = 1 / 2 powr real (k - 1)" by (rule powr_minus_divide)
      also have "\<dots> = 1 / 2 ^ (k - 1)" by (simp only: powr_realpow zero_less_numeral)
      finally show ?thesis by (rule sym)
    qed
    finally have h: "\<bar>x\<bar> < 2 powr real_of_int (- int k + 1)" unfolding x .
    have "expo x = - int k" using False by (simp add: expo_def k_def c_def y_def)
    then show ?thesis using l h by simp
  qed
  then show "2 powr real_of_int (expo x) \<le> \<bar>x\<bar>" "\<bar>x\<bar> < 2 powr real_of_int (expo x + 1)"
    by simp_all
qed

lemma expo_eqI:
  assumes "2 powr real_of_int e \<le> \<bar>x\<bar>" and "\<bar>x\<bar> < 2 powr real_of_int (e + 1)"
  shows "expo x = e"
proof -
  have "0 < (2::real) powr real_of_int e" by simp
  then have x: "x \<noteq> 0" using assms(1) by linarith
  have "2 powr real_of_int (expo x) < (2::real) powr real_of_int (e + 1)"
    using expo_bounds(1)[OF x] assms(2) by linarith
  moreover have "2 powr real_of_int e < (2::real) powr real_of_int (expo x + 1)"
    using expo_bounds(2)[OF x] assms(1) by linarith
  ultimately show ?thesis by simp
qed

lemma expo_minus: "expo (- x) = expo x"
  by (simp add: expo_def)

lemma expo_mono:
  assumes "0 < x" and "x \<le> y"
  shows "expo x \<le> expo y"
proof -
  have "2 powr real_of_int (expo x) \<le> x" "y < 2 powr real_of_int (expo y + 1)"
    using expo_bounds(1)[of x] expo_bounds(2)[of y] assms by simp_all
  then have "2 powr real_of_int (expo x) < (2::real) powr real_of_int (expo y + 1)"
    using assms(2) by linarith
  then have "expo x < expo y + 1" by (simp only: powr_less_cancel_iff one_less_numeral_iff
    semiring_norm of_int_less_iff)
  then show ?thesis by simp
qed

text \<open>The rounding in terms of the real power.\<close>

lemma fl_powr:
  "fl p x = (if x = 0 then 0
             else let u = 2 powr real_of_int (expo x - int p + 1)
                  in real_of_int (rne (x / u)) * u)"
proof -
  have "2 powi k = 2 powr real_of_int k" for k :: int
    by (simp add: powr_real_of_int')
  then show ?thesis by (simp only: fl_def)
qed

lemma fl_minus: "fl p (- x) = - fl p x"
  by (simp add: fl_powr expo_minus Let_def rne_minus)

lemma fl_zero: "fl p 0 = 0"
  by (simp add: fl_def)

lemma fl_repr:
  assumes "\<bar>m\<bar> < 2 ^ p"
  shows "fl p (real_of_int m * 2 powr real_of_int k) = real_of_int m * 2 powr real_of_int k"
proof (cases "m = 0")
  case True
  then show ?thesis by (simp add: fl_powr)
next
  case False
  define x where "x = real_of_int m * 2 powr real_of_int k"
  have x0: "x \<noteq> 0" using False by (simp add: x_def)
  have "\<bar>x\<bar> = real_of_int \<bar>m\<bar> * 2 powr real_of_int k"
    by (simp add: x_def abs_mult)
  also have "\<dots> < 2 ^ p * 2 powr real_of_int k"
    using assms by (simp add: of_int_less_iff[symmetric, where 'a = real] del: of_int_less_iff)
  finally have "\<bar>x\<bar> < 2 powr real_of_int (int p + k)"
    by (simp add: powr_add powr_realpow)
  moreover have "2 powr real_of_int (expo x) \<le> \<bar>x\<bar>" using expo_bounds(1)[OF x0] .
  ultimately have "2 powr real_of_int (expo x) < (2::real) powr real_of_int (int p + k)" by linarith
  then have "expo x < int p + k" by simp
  define d where "d = nat (k - (expo x - int p + 1))"
  have d: "k - (expo x - int p + 1) = int d"
    using \<open>expo x < int p + k\<close> by (simp add: d_def)
  define u :: real where "u = 2 powr real_of_int (expo x - int p + 1)"
  have "real_of_int k = real_of_int (int d) + real_of_int (expo x - int p + 1)"
    using d by linarith
  then have "2 powr real_of_int k = 2 powr real_of_int (int d) * u"
    unfolding u_def using powr_add[of 2 "real_of_int (int d)"] by metis
  then have xu: "x = real_of_int (m * 2 ^ d) * u"
    by (simp add: x_def powr_realpow)
  have "u > 0" by (simp add: u_def)
  then have "x / u = real_of_int (m * 2 ^ d)" using xu by simp
  then have "rne (x / u) = m * 2 ^ d" using rne_of_int by metis
  then have "fl p x = x" using x0 xu unfolding fl_powr Let_def u_def[symmetric] by simp
  then show ?thesis by (simp add: x_def)
qed

lemma fl_of_int: "\<bar>n\<bar> < 2 ^ p \<Longrightarrow> fl p (real_of_int n) = real_of_int n"
  using fl_repr[of n p 0] by simp

lemma fl_dyadic: "\<bar>m\<bar> < 2 ^ p \<Longrightarrow> fl p (real_of_int m / 2 ^ k) = real_of_int m / 2 ^ k"
  using fl_repr[of m p "- int k"] by (simp add: powr_minus powr_realpow field_simps)

text \<open>The sign of a number survives the rounding.\<close>

lemma fl_nonpos: "x \<le> 0 \<Longrightarrow> fl p x \<le> 0"
proof -
  assume a: "x \<le> 0"
  have "rne (x / u) \<le> 0" if "0 < u" for u
    using rne_mono[of "x / u" 0] a that rne_of_int[of 0] by (simp add: divide_nonpos_pos)
  then show ?thesis
    by (simp add: fl_powr Let_def mult_le_0_iff)
qed

text \<open>
  The result of rounding a positive number lies on the grid of its binade,
  ends included.
\<close>

lemma fl_grid:
  assumes "0 < x" and "0 < p"
  shows "\<exists>k. fl p x = real_of_int k * 2 powr real_of_int (expo x - int p + 1) \<and>
           2 ^ (p - 1) \<le> k \<and> k \<le> 2 ^ p"
proof -
  define u :: real where "u = 2 powr real_of_int (expo x - int p + 1)"
  have u: "0 < u" by (simp add: u_def)
  have x0: "x \<noteq> 0" using assms by simp
  have e: "2 powr real_of_int (expo x) = 2 ^ (p - 1) * u"
  proof -
    have "real_of_int (expo x) = real (p - 1) + real_of_int (expo x - int p + 1)"
      using assms(2) by (simp add: of_nat_diff)
    then have "2 powr real_of_int (expo x) = 2 powr real (p - 1) * u"
      unfolding u_def using powr_add[of 2 "real (p - 1)"] by metis
    then show ?thesis by (simp add: powr_realpow)
  qed
  have e1: "2 powr real_of_int (expo x + 1) = 2 ^ p * u"
  proof -
    have "real_of_int (expo x + 1) = real p + real_of_int (expo x - int p + 1)"
      by simp
    then have "2 powr real_of_int (expo x + 1) = 2 powr real p * u"
      unfolding u_def using powr_add[of 2 "real p"] by metis
    then show ?thesis by (simp add: powr_realpow)
  qed
  have lo: "real_of_int (2 ^ (p - 1)) \<le> x / u"
    using expo_bounds(1)[OF x0] assms(1) e u by (simp add: pos_le_divide_eq)
  have hi: "x / u \<le> real_of_int (2 ^ p)"
    using expo_bounds(2)[OF x0] assms(1) e1 u by (simp add: pos_divide_le_eq)
  have "2 ^ (p - 1) \<le> rne (x / u)" using rne_mono[OF lo] by (simp only: rne_of_int)
  moreover have "rne (x / u) \<le> 2 ^ p" using rne_mono[OF hi] by (simp only: rne_of_int)
  moreover have "fl p x = real_of_int (rne (x / u)) * u"
    using x0 by (simp add: fl_powr Let_def u_def)
  ultimately show ?thesis unfolding u_def by blast
qed

lemma fl_nonneg: "0 \<le> x \<Longrightarrow> 0 \<le> fl p x"
  using fl_nonpos[of "- x" p] by (simp add: fl_minus)

lemma fl_mono_pos:
  assumes "0 < x" and "x \<le> y" and "0 < p"
  shows "fl p x \<le> fl p y"
proof (cases "expo x = expo y")
  case True
  define u :: real where "u = 2 powr real_of_int (expo y - int p + 1)"
  have u: "0 < u" by (simp add: u_def)
  then have "x / u \<le> y / u" using assms(2) by (simp add: divide_right_mono)
  then have "real_of_int (rne (x / u)) * u \<le> real_of_int (rne (y / u)) * u"
    using rne_mono u by (simp add: mult_right_mono)
  then show ?thesis
    using assms(1,2) True by (simp add: fl_powr Let_def u_def)
next
  case False
  then have lt: "expo x + 1 \<le> expo y" using expo_mono[OF assms(1,2)] by simp
  obtain k where k: "fl p x = real_of_int k * 2 powr real_of_int (expo x - int p + 1)"
    "k \<le> 2 ^ p"
    using fl_grid[OF assms(1,3)] by blast
  obtain j where j: "fl p y = real_of_int j * 2 powr real_of_int (expo y - int p + 1)"
    "2 ^ (p - 1) \<le> j"
    using fl_grid[of y p] assms by force
  have "real_of_int k \<le> 2 ^ p" using k(2) by (rule pow2_le_real_of_int(2))
  then have "fl p x \<le> 2 ^ p * 2 powr real_of_int (expo x - int p + 1)"
    unfolding k(1) by (simp add: mult_right_mono)
  also have "\<dots> = 2 powr (real p + real_of_int (expo x - int p + 1))"
    by (simp only: powr_add powr_realpow zero_less_numeral)
  also have "\<dots> = 2 powr real_of_int (expo x + 1)" by simp
  also have "\<dots> \<le> 2 powr real_of_int (expo y)" using lt by simp
  also have "\<dots> = 2 powr (real (p - 1) + real_of_int (expo y - int p + 1))"
    using assms(3) by (simp add: of_nat_diff)
  also have "\<dots> = 2 ^ (p - 1) * 2 powr real_of_int (expo y - int p + 1)"
    by (simp only: powr_add powr_realpow zero_less_numeral)
  also have "\<dots> \<le> fl p y"
  proof -
    have "(2::real) ^ (p - 1) \<le> real_of_int j"
      using j(2) by (rule pow2_le_real_of_int(1))
    then show ?thesis unfolding j(1) by (simp add: mult_right_mono)
  qed
  finally show ?thesis .
qed

lemma fl_mono:
  assumes "x \<le> y" and "0 < p"
  shows "fl p x \<le> fl p y"
proof -
  consider "0 < x" | "y < 0" | "x \<le> 0" "0 \<le> y" by linarith
  then show ?thesis
  proof cases
    case 1
    then show ?thesis using fl_mono_pos assms by simp
  next
    case 2
    then have "fl p (- y) \<le> fl p (- x)" using fl_mono_pos[of "- y" "- x" p] assms by simp
    then show ?thesis by (simp add: fl_minus)
  next
    case 3
    then show ?thesis using fl_nonpos[of x p] fl_nonneg[of y p] by linarith
  qed
qed

text \<open>The largest float32 number below 9 is \<open>9 - 2\<^sup>-\<^sup>2\<^sup>0\<close>.\<close>

lemma f32_below_9:
  assumes "fl 24 z < 9"
  shows "fl 24 z \<le> 9 - 1 / 2 ^ 20"
proof (cases "0 < z")
  case False
  then show ?thesis using fl_nonpos[of z 24] by simp
next
  case True
  obtain k where k: "fl 24 z = real_of_int k * 2 powr real_of_int (expo z - 23)"
    "2 ^ 23 \<le> k" "k \<le> 2 ^ 24"
    using fl_grid[OF True, of 24] by auto
  consider "expo z \<le> 2" | "expo z = 3" | "4 \<le> expo z" by linarith
  then show ?thesis
  proof cases
    case 1
    then have "2 powr real_of_int (expo z - 23) \<le> 2 powr real_of_int (- 21)" by simp
    also have "\<dots> = 1 / 2 ^ 21" by (simp add: powr_minus_divide)
    finally have u: "2 powr real_of_int (expo z - 23) \<le> 1 / 2 ^ 21" .
    have "real_of_int k \<le> 2 ^ 24" using k(3) by (rule pow2_le_real_of_int(2))
    then have "fl 24 z \<le> 2 ^ 24 * (1 / 2 ^ 21)"
      unfolding k(1) using u by (intro mult_mono) simp_all
    then show ?thesis by simp
  next
    case 2
    then have "2 powr real_of_int (expo z - 23) = 2 powr real_of_int (- 20)" by simp
    also have "\<dots> = 1 / 2 ^ 20" by (simp add: powr_minus_divide)
    finally have v: "fl 24 z = real_of_int k / 2 ^ 20" using k(1) by simp
    then have "real_of_int k < 9437184" using assms by (simp add: field_simps)
    then have "k < 9437184" by linarith
    then have "k \<le> 9437183" by simp
    then have "real_of_int k \<le> 9437183" by linarith
    then show ?thesis unfolding v by (simp add: field_simps)
  next
    case 3
    then have "real_of_int (- 19) \<le> real_of_int (expo z - 23)" by simp
    then have "2 powr real_of_int (- 19) \<le> (2::real) powr real_of_int (expo z - 23)"
      by (intro powr_mono) simp_all
    moreover have "2 powr real_of_int (- 19) = (1::real) / 2 ^ 19" by (simp add: powr_minus_divide)
    ultimately have u: "1 / 2 ^ 19 \<le> 2 powr real_of_int (expo z - 23)" by (simp only:)
    have "(2::real) ^ 23 \<le> real_of_int k" using k(2) by (rule pow2_le_real_of_int(1))
    then have "2 ^ 23 * (1 / 2 ^ 19) \<le> fl 24 z"
      unfolding k(1) using u by (intro mult_mono) simp_all
    then show ?thesis using assms by simp
  qed
qed

lemma f32_sum_below_10:
  assumes "fl 24 z < 9" and "24 \<le> q"
  shows "fl q (fl 24 z + 1) < 10"
proof -
  have "\<bar>10485759 :: int\<bar> < 2 ^ 24" by simp
  also have "(2::int) ^ 24 \<le> 2 ^ q" using assms(2) by (intro power_increasing) simp_all
  finally have "fl q (real_of_int 10485759 / 2 ^ 20) = real_of_int 10485759 / 2 ^ 20"
    by (rule fl_dyadic)
  moreover have "fl q (fl 24 z + 1) \<le> fl q (real_of_int 10485759 / 2 ^ 20)"
    using f32_below_9[OF assms(1)] assms(2) by (intro fl_mono) simp_all
  ultimately show ?thesis by simp
qed

lemma py_int_below_10: "x < 10 \<Longrightarrow> py_int x < 10"
  by (simp add: py_int_def floor_less_iff ceiling_less_iff)

text \<open>
  A computed length below 9 gives a strip size below 10, whatever the sum of the
  squares was and whether the sum with 1 is formed in \<^verbatim>\<open>float32\<close> or in
  \<^verbatim>\<open>float64\<close>.
\<close>

lemma short_edge_size:
  assumes "np_norm cv a b < 9" and "24 \<le> scalar_bits cv"
  shows "py_int (fl (scalar_bits cv) (np_norm cv a b + 1)) < 10"
  using assms unfolding np_norm_def Let_def
  by (intro py_int_below_10 f32_sum_below_10)

text \<open>From 9 on, the computed length gives a strip size of at least 10.\<close>

lemma long_edge_size:
  assumes "9 \<le> np_norm cv a b" and "24 \<le> scalar_bits cv"
  shows "10 \<le> py_int (fl (scalar_bits cv) (np_norm cv a b + 1))"
proof -
  have "\<bar>10 :: int\<bar> < 2 ^ 24" by simp
  also have "(2::int) ^ 24 \<le> 2 ^ scalar_bits cv"
    using assms(2) by (intro power_increasing) simp_all
  finally have "fl (scalar_bits cv) (real_of_int 10) = real_of_int 10" by (rule fl_of_int)
  moreover have "fl (scalar_bits cv) (real_of_int 10) \<le> fl (scalar_bits cv) (np_norm cv a b + 1)"
    using assms by (intro fl_mono) simp_all
  ultimately have "10 \<le> fl (scalar_bits cv) (np_norm cv a b + 1)" by simp
  then show ?thesis by (simp add: py_int_def le_floor_iff)
qed

lemma size_filter_iff:
  assumes "24 \<le> scalar_bits cv"
  shows "fst (strip_size cv box) < 10 \<longleftrightarrow> np_norm cv (box ! 0) (box ! 1) < 9"
    and "snd (strip_size cv box) < 10 \<longleftrightarrow> np_norm cv (box ! 1) (box ! 2) < 9"
  unfolding strip_size_def fst_conv snd_conv
  using short_edge_size[OF _ assms] long_edge_size[OF _ assms]
  by (meson not_le)+

section \<open>Properties of the linking loops\<close>

lemma length_link_inner: "length (link_inner box1 id1 ps word_id) = length word_id"
  by (induction ps arbitrary: word_id) auto

lemma length_link_outer: "length (link_outer every ps word_id) = length word_id"
  by (induction ps arbitrary: word_id) (auto simp: length_link_inner)

lemma length_link_boxes: "length (link_boxes det avg) = length det"
  by (simp add: link_boxes_def Let_def length_link_outer)

lemma ok_entry_update:
  assumes "\<And>i. i < length w \<Longrightarrow> ok_entry n i (w ! i)"
    and "id2 < n" and "id1 \<noteq> id2" and "i < length w"
  shows "ok_entry n i (w[id1 := int id2] ! i)"
proof (cases "i = id1")
  case True
  then show ?thesis using assms(2-4) by (simp add: ok_entry_def)
next
  case False
  then show ?thesis using assms(1)[OF assms(4)] by simp
qed

lemma link_inner_ok:
  assumes "\<And>i. i < length w \<Longrightarrow> ok_entry n i (w ! i)"
    and "\<And>id2 b s. (id2, b, s) \<in> set ps \<Longrightarrow> id2 < n"
    and "i < length w"
  shows "ok_entry n i (link_inner box1 id1 ps w ! i)"
  using assms
proof (induction ps arbitrary: w)
  case Nil
  then show ?case by simp
next
  case (Cons p ps)
  obtain id2 box2 size2 where p: "p = (id2, box2, size2)" by (cases p) auto
  let ?w' = "if id1 = id2 then w
        else if truthy (compare_boxes box1 box2 0.1 10) then w[id1 := int id2]
        else w"
  have len: "length ?w' = length w" by simp
  have id2: "id2 < n" using Cons.prems(2)[of id2 box2 size2] p by simp
  have ok': "\<And>i. i < length ?w' \<Longrightarrow> ok_entry n i (?w' ! i)"
  proof -
    fix i assume i: "i < length ?w'"
    then have iw: "i < length w" by (simp split: if_splits)
    show "ok_entry n i (?w' ! i)"
      using ok_entry_update[OF Cons.prems(1) id2 _ iw, of id1] Cons.prems(1)[OF iw]
      by auto
  qed
  have "ok_entry n i (link_inner box1 id1 ps ?w' ! i)"
    by (rule Cons.IH[OF ok' _ _]) (use Cons.prems len in auto)
  then show ?case by (simp add: p)
qed

lemma link_outer_ok:
  assumes "\<And>i. i < length w \<Longrightarrow> ok_entry n i (w ! i)"
    and "\<And>id2 b s. (id2, b, s) \<in> set every \<Longrightarrow> id2 < n"
    and "i < length w"
  shows "ok_entry n i (link_outer every ps w ! i)"
  using assms
proof (induction ps arbitrary: w)
  case Nil
  then show ?case by simp
next
  case (Cons p ps)
  obtain id1 box1 size1 where p: "p = (id1, box1, size1)" by (cases p) auto
  let ?w' = "link_inner box1 id1 every w"
  have ok': "\<And>i. i < length ?w' \<Longrightarrow> ok_entry n i (?w' ! i)"
    using link_inner_ok[OF Cons.prems(1) Cons.prems(2)] by (simp add: length_link_inner)
  have "ok_entry n i (link_outer every ps ?w' ! i)"
    by (rule Cons.IH[OF ok' Cons.prems(2)]) (use Cons.prems in \<open>auto simp: length_link_inner\<close>)
  then show ?case by (simp add: p)
qed

lemma link_boxes_ok:
  assumes "i < length det"
  shows "ok_entry (length det) i (link_boxes det avg ! i)"
proof -
  let ?pairs = "enumerate 0 (zip det avg)"
  have a: "\<And>j. j < length (replicate (length det) (- 1 :: int)) \<Longrightarrow>
      ok_entry (length det) j (replicate (length det) (- 1) ! j)"
    by (simp add: ok_entry_def)
  have b: "\<And>id2 b s. (id2, b, s) \<in> set ?pairs \<Longrightarrow> id2 < length det"
    by (auto simp: in_set_enumerate_eq)
  show ?thesis
    unfolding link_boxes_def Let_def
    by (rule link_outer_ok[OF a b]) (use assms in auto)
qed

section \<open>The adjacency test on two stacked boxes\<close>

lemma permutations_4_2_eq:
  "permutations_4_2 =
     [(0, 1), (0, 2), (0, 3), (1, 0), (1, 2), (1, 3), (2, 0), (2, 1), (2, 3), (3, 0), (3, 1), (3, 2)]"
  by (simp add: permutations_4_2_def upt_rec numeral_eq_Suc)

lemma compare_upper_lower: "compare_boxes box_upper box_lower 0.1 10 = None"
  by (simp add: compare_boxes_def np_mean_axis0_def permutations_4_2_eq edge_test_def
      box_upper_def box_lower_def Let_def)

lemma compare_lower_upper: "compare_boxes box_lower box_upper 0.1 10 = Some False"
  by (simp add: compare_boxes_def np_mean_axis0_def box_upper_def box_lower_def Let_def)

lemma spec_upper_lower: "spec_isAbove box_upper box_lower"
  by (simp add: spec_isAbove_def np_mean_axis0_def permutations_4_2_eq spec_slope_def
      spec_midpoint_def box_upper_def box_lower_def)

text \<open>
  Claim C4.  The specification's adjacency test compares the slopes and the
  midpoints of an edge of the first box and an edge of the second box.  On the
  two boxes \<open>box_upper\<close> and \<open>box_lower\<close> (the bottom edge of the first and the top
  edge of the second are parallel, their midpoints 5 pixels apart) that test
  holds, while \<^verbatim>\<open>compare_boxes\<close> finds no index combination and returns
  \<^verbatim>\<open>None\<close>, so that the linking loops leave both entries of \<open>word_id\<close> at the
  sentinel.
\<close>

theorem compare_boxes_misses_stacked_boxes:
  "spec_isAbove box_upper box_lower \<and>
   compare_boxes box_upper box_lower 0.1 10 = None \<and>
   link_boxes [box_upper, box_lower] [420, 420] = [- 1, - 1]"
  using compare_upper_lower compare_lower_upper spec_upper_lower
  by (simp add: link_boxes_def enumerate_eq_zip upt_rec Let_def)

section \<open>Properties of the rescaling\<close>





section \<open>The end-cap search always finds both caps\<close>


lemma arange_caps: "np_arange 0.5 max_r step_r = [0.5, 0.7, 0.9, 1.1, 1.3, 1.5, 1.7, 1.9]"
proof -
  have "\<lceil>(max_r - 0.5) / step_r\<rceil> = 8" by (simp add: max_r_def step_r_def ceiling_eq_iff)
  then show ?thesis
    by (simp add: np_arange_def upt_rec numeral_eq_Suc max_r_def step_r_def)
qed

lemma cap_step_inv: "caps_inv s \<Longrightarrow> caps_inv (cap_step cv wl hch gs ge npp r s)"
  by (simp add: caps_inv_def cap_step_def Let_def del: not_None_eq)

lemma cap_step_fallback:
  assumes "r + 2 * step_r \<ge> max_r"
  shows "isSppFound (cap_step cv wl hch gs ge npp r s) \<and> isEppFound (cap_step cv wl hch gs ge npp r s)"
  using assms by (simp add: cap_step_def Let_def)

lemma cap_loop_inv: "caps_inv s \<Longrightarrow> caps_inv (cap_loop cv wl hch gs ge npp rs s)"
  by (induction rs arbitrary: s) (simp_all add: Let_def cap_step_inv)

lemma cap_loop_found:
  assumes "\<exists>r \<in> set rs. r + 2 * step_r \<ge> max_r"
  shows "isSppFound (cap_loop cv wl hch gs ge npp rs s) \<and> isEppFound (cap_loop cv wl hch gs ge npp rs s)"
  using assms
proof (induction rs arbitrary: s)
  case Nil
  then show ?case by simp
next
  case (Cons r rs)
  let ?s' = "cap_step cv wl hch gs ge npp r s"
  show ?case
  proof (cases "isSppFound ?s' \<and> isEppFound ?s'")
    case True
    then show ?thesis by (simp add: Let_def)
  next
    case False
    then have "\<not> (r + 2 * step_r \<ge> max_r)" using cap_step_fallback[of r] by blast
    then have "\<exists>r \<in> set rs. r + 2 * step_r \<ge> max_r" using Cons.prems by auto
    then show ?thesis using Cons.IH[of ?s'] False by (simp add: Let_def)
  qed
qed

lemma find_caps_found:
  "isSppFound (find_caps cv wl hch ps npp) \<and> isEppFound (find_caps cv wl hch ps npp) \<and>
   spp (find_caps cv wl hch ps npp) \<noteq> None \<and> epp (find_caps cv wl hch ps npp) \<noteq> None"
proof -
  have ex: "\<exists>r \<in> set (np_arange 0.5 max_r step_r). r + 2 * step_r \<ge> max_r"
    unfolding arange_caps by (simp add: max_r_def step_r_def)
  have inv0: "caps_inv \<lparr>isSppFound = False, isEppFound = False, spp = None, epp = None\<rparr>"
    by (simp add: caps_inv_def del: not_None_eq)
  show ?thesis
    unfolding find_caps_def Let_def
    using cap_loop_found[OF ex] cap_loop_inv[OF inv0]
    by (simp add: caps_inv_def)
qed

lemma cv_axis_sel:
  "getPerspectiveTransform cv_axis = affine_transform"
  "warpPerspective cv_axis = warp_nearest"
  "line cv_axis = draw_line"
  "minAreaRect_boxPoints cv_axis = bounding_box"
  "np_dot cv_axis = dot_float32"
  "scalar_bits cv_axis = 53"
  by (simp_all add: cv_axis_def)

text \<open>
  On an edge parallel to an axis whose length is a multiple of a power of \<open>1/2\<close>
  below \<open>2\<^sup>1\<^sup>2\<close>, no operation of the norm rounds.
\<close>

lemma norm_float32_exact:
  assumes "d = real_of_int m / 2 ^ k" and "\<bar>m\<bar> < 2 ^ 12"
  shows "fl 24 (sqrt (dot_float32 (fl 24 d, fl 24 0))) = \<bar>d\<bar>"
    and "fl 24 (sqrt (dot_float32 (fl 24 0, fl 24 d))) = \<bar>d\<bar>"
proof -
  have m: "\<bar>m\<bar> < 2 ^ 24"
    using assms(2) by (rule less_trans) simp
  have "\<bar>m\<bar> * \<bar>m\<bar> < 2 ^ 12 * 2 ^ 12"
    using assms(2) by (intro mult_strict_mono) simp_all
  then have mm: "\<bar>m * m\<bar> < 2 ^ 24" by (simp add: abs_mult)
  have d: "fl 24 d = d" unfolding assms(1) using m by (rule fl_dyadic)
  have "(2::real) ^ (2 * k) = 2 ^ k * 2 ^ k"
    by (simp add: mult_2 power_add)
  then have "d * d = real_of_int (m * m) / 2 ^ (2 * k)"
    by (simp add: assms(1))
  then have dd: "fl 24 (d * d) = d * d" using fl_dyadic[OF mm, of "2 * k"] by simp
  have "\<bar>d\<bar> = real_of_int \<bar>m\<bar> / 2 ^ k" by (simp add: assms(1))
  then have a: "fl 24 \<bar>d\<bar> = \<bar>d\<bar>" using fl_dyadic[of "\<bar>m\<bar>" 24 k] m by simp
  have s: "sqrt (d * d) = \<bar>d\<bar>" by simp
  show "fl 24 (sqrt (dot_float32 (fl 24 d, fl 24 0))) = \<bar>d\<bar>"
    by (simp only: dot_float32_def fst_conv snd_conv fl_zero d dd mult_zero_left add_0_right s a)
  show "fl 24 (sqrt (dot_float32 (fl 24 0, fl 24 d))) = \<bar>d\<bar>"
    by (simp only: dot_float32_def fst_conv snd_conv fl_zero d dd mult_zero_left add_0_left s a)
qed

lemma np_norm_horizontal:
  assumes "a - b = real_of_int m / 2 ^ k" and "\<bar>m\<bar> < 2 ^ 12"
  shows "np_norm cv_axis (a, y) (b, y) = \<bar>a - b\<bar>"
  using norm_float32_exact(1)[OF assms]
  by (simp add: np_norm_def cv_axis_sel fl_zero)

lemma np_norm_vertical:
  assumes "a - b = real_of_int m / 2 ^ k" and "\<bar>m\<bar> < 2 ^ 12"
  shows "np_norm cv_axis (x, a) (x, b) = \<bar>a - b\<bar>"
  using norm_float32_exact(2)[OF assms]
  by (simp add: np_norm_def cv_axis_sel fl_zero)

text \<open>The edge lengths that occur in the examples.\<close>

lemma norms_axis:
  "np_norm cv_axis (0, 0) (21 / 2, 0) = 21 / 2"
  "np_norm cv_axis (21 / 2, 0) (21 / 2, 19 / 2) = 19 / 2"
  "np_norm cv_axis (0, 0) (20, 0) = 20"
  "np_norm cv_axis (20, 0) (40, 0) = 20"
  "np_norm cv_axis (0, 0) (30, 0) = 30"
  "np_norm cv_axis (30, 0) (30, 8) = 8"
  "np_norm cv_axis (0, 0) (11, 0) = 11"
  "np_norm cv_axis (11, 0) (11, 2) = 2"
  "np_norm cv_axis (0, 2) (0, 0) = 2"
  "np_norm cv_axis (0, 0) (0, 2) = 2"
  "np_norm cv_axis (11, 2) (11, 0) = 2"
  "np_norm cv_axis (11, 0) (0, 0) = 11"
  using np_norm_horizontal[of 0 "21 / 2" "- 21" 1 0]
    np_norm_vertical[of 0 "19 / 2" "- 19" 1 "21 / 2"]
    np_norm_horizontal[of 0 20 "- 20" 0 0]
    np_norm_horizontal[of 20 40 "- 20" 0 0]
    np_norm_horizontal[of 0 30 "- 30" 0 0]
    np_norm_vertical[of 0 8 "- 8" 0 30]
    np_norm_horizontal[of 0 11 "- 11" 0 0]
    np_norm_vertical[of 0 2 "- 2" 0 11]
    np_norm_vertical[of 2 0 2 0 0]
    np_norm_vertical[of 0 2 "- 2" 0 0]
    np_norm_vertical[of 2 0 2 0 11]
    np_norm_horizontal[of 11 0 11 0 0]
  by simp_all

text \<open>
  The computed length of an edge is not the exact one.  The two coordinates of
  \<open>edge_end\<close> are \<^verbatim>\<open>float32\<close> numbers, the edge from the origin to it is
  shorter than 9, and its computed length is 9: the sum of the two rounded
  squares rounds to 81.  The strip of a box with this first edge is 10 wide, so
  that the box passes the size filter.
\<close>

lemma computed_length_rounds_up:
  "fl 24 (fst edge_end) = fst edge_end" "fl 24 (snd edge_end) = snd edge_end"
  "spec_edge_length (0, 0) edge_end < 9"
  "np_norm cv_axis (0, 0) edge_end = 9"
  "fst (strip_size cv_axis [(0, 0), edge_end, c, d]) = 10"
proof -
  have x: "fl 24 (11324621 / 2097152) = 11324621 / 2097152" by code_simp
  have y: "fl 24 (7549747 / 1048576) = 7549747 / 1048576" by code_simp
  show "fl 24 (fst edge_end) = fst edge_end" "fl 24 (snd edge_end) = snd edge_end"
    unfolding edge_end_def fst_conv snd_conv by (rule x, rule y)
  have "(fst edge_end)\<^sup>2 + (snd edge_end)\<^sup>2 < 9\<^sup>2"
    by (simp add: edge_end_def power2_eq_square)
  then have "sqrt ((fst edge_end)\<^sup>2 + (snd edge_end)\<^sup>2) < sqrt (9\<^sup>2)"
    by (simp only: real_sqrt_less_iff)
  then show "spec_edge_length (0, 0) edge_end < 9" by (simp add: spec_edge_length_def)
  have d: "dot_float32 (- (11324621 / 2097152), - (7549747 / 1048576)) = 81"
    unfolding dot_float32_def fst_conv snd_conv by code_simp
  have s: "sqrt 81 = 9"
    using real_sqrt_abs[of 9] by simp
  have n: "fl 24 9 = 9" using fl_of_int[of 9 24] by simp
  show l: "np_norm cv_axis (0, 0) edge_end = 9"
    unfolding np_norm_def cv_axis_sel edge_end_def Let_def fst_conv snd_conv
    by (simp only: diff_0 fl_minus x y d s n)
  have "fl 53 10 = 10" using fl_of_int[of 10 53] by simp
  then show "fst (strip_size cv_axis [(0, 0), edge_end, c, d]) = 10"
    by (simp add: strip_size_def l cv_axis_sel py_int_def)
qed

lemma fl_53:
  "fl 53 (23 / 2) = 23 / 2" "fl 53 (21 / 2) = 21 / 2" "fl 53 21 = 21"
  using fl_dyadic[of 23 53 1] fl_dyadic[of 21 53 1] fl_of_int[of 21 53]
  by simp_all

lemma strip_band: "strip_size cv_axis box_band = (11, 10)"
  by (simp add: strip_size_def box_band_def norms_axis cv_axis_sel fl_53 py_int_def)

lemma M_band: "affine_transform box_band (target_rect 11 10) = [[22 / 21, 0, 0], [0, 20 / 19, 0], [0, 0, 1]]"
  by (simp add: affine_transform_def box_band_def target_rect_def Let_def)

lemma Minv_band: "np_linalg_inv [[22 / 21, 0, 0], [0, 20 / 19, 0], [0, 0, 1]] = Some [[21 / 22, 0, 0], [0, 19 / 20, 0], [0, 0, 1]]"
  by (simp add: Let_def)

lemma labels_band_eq: "labels_band = 
 [[0, 0, 0, 0, 0, 0, 0, 0, 0, 0, 0], [0, 0, 0, 0, 0, 0, 0, 0, 0, 0, 0],
  [0, 0, 0, 0, 0, 0, 0, 0, 0, 0, 0], [0, 0, 0, 0, 0, 0, 0, 0, 0, 0, 0],
  [1, 1, 1, 1, 1, 1, 1, 1, 1, 1, 1], [1, 1, 1, 1, 1, 1, 1, 1, 1, 1, 1],
  [0, 0, 0, 0, 0, 0, 0, 0, 0, 0, 0], [0, 0, 0, 0, 0, 0, 0, 0, 0, 0, 0],
  [0, 0, 0, 0, 0, 0, 0, 0, 0, 0, 0], [0, 0, 0, 0, 0, 0, 0, 0, 0, 0, 0]]"
  by (simp add: labels_band_def upt_rec numeral_eq_Suc)

lemma warp_band: "warp_nearest labels_band [[22 / 21, 0, 0], [0, 20 / 19, 0], [0, 0, 1]] (11, 10) = labels_band"
  unfolding warp_nearest_def Minv_band option.case
  apply (simp add: warpCoord_def np_matmul_def Let_def)
  apply (simp add: labels_band_eq upt_rec numeral_eq_Suc round_def)
  done

section \<open>Polygon fitting on a band of two rows\<close>


lemma binarize_band: "binarize 1 labels_band = labels_band"
  by (simp add: binarize_def labels_band_eq)

lemma column_band: "i < 11 \<Longrightarrow> column labels_band i = [0, 0, 0, 0, Suc 0, Suc 0, 0, 0, 0, 0]"
  by (simp add: labels_band_def column_def upt_rec[of 0] upt_rec[of "Suc _"] numeral_eq_Suc del: replicate.simps)

lemma where_band: "np_where_nonzero [0, 0, 0, 0, Suc 0, Suc 0, 0, 0, 0, 0] = [4, 5]"
  by (simp add: np_where_nonzero_def upt_rec numeral_eq_Suc)

lemma scan_step_band:
  "i < 11 \<Longrightarrow> scan_columns labels_band (i # rest) (cp, max_len) =
     scan_columns labels_band rest (cp @ [(i, 4, 5)], if 2 > max_len then 2 else max_len)"
  by (simp add: column_band where_band Let_def)

lemma scan_band:
  "scan_columns labels_band [0..<11] ([], - 1) =
     ([(0, 4, 5), (1, 4, 5), (2, 4, 5), (3, 4, 5), (4, 4, 5), (5, 4, 5), (6, 4, 5), (7, 4, 5),
       (8, 4, 5), (9, 4, 5), (10, 4, 5)], 2)"
proof -
  have "[0..<11] = [0, 1, 2, 3, 4, 5, 6, 7, 8, 9, 10::nat]"
    by (simp add: upt_rec numeral_eq_Suc)
  then show ?thesis
    by (simp add: scan_step_band del: scan_columns.simps(2))
qed


lemma list_update_Cons_num: "(x # xs)[numeral n := y] = x # xs[pred_numeral n := y]"
  by (simp add: numeral_eq_Suc)

lemma replicate_num: "replicate (numeral n) x = x # replicate (pred_numeral n) x"
  by (simp add: numeral_eq_Suc)

lemma pivots_band:
  "last_segment (pivot_loop 1 11
     [(0, 4, 5), (1, 4, 5), (2, 4, 5), (3, 4, 5), (4, 4, 5), (5, 4, 5), (6, 4, 5), (7, 4, 5),
       (8, 4, 5), (9, 4, 5), (10, 4, 5)]
     \<lparr>cp_section = replicate 11 (0, 0), pp = replicate 5 None,
          seg_height = replicate 5 0, seg_num = 0, num_sec = 0, prev_h = - 1\<rparr>) =
   \<lparr>cp_section = [(0, 9/2), (1, 9/2), (2, 9/2), (3, 9/2), (4, 9/2), (5, 9/2), (6, 9/2), (7, 9/2),
       (8, 9/2), (9, 9/2), (10, 9/2)],
     pp = [Some (1, 9/2), Some (3, 9/2), Some (5, 9/2), Some (7, 9/2), Some (9, 9/2)],
     seg_height = [2, 2, 2, 2, 2], seg_num = 10, num_sec = 1, prev_h = - 1\<rparr>"
  by (simp add: accumulate_def last_segment_def Let_def list_update_Cons_num replicate_num)


lemma fit_pivots_Some:
  assumes "None \<notin> set (pp s)"
    and "\<not> seg_w < real_of_int (np_max_int (seg_height s)) * 0.25"
  shows "fit_pivots cv word_label Minv seg_w s \<noteq> None"
proof -
  let ?hch = "np_median (seg_height s) * expand_ratio / 2"
  let ?ps = "map the (pp s)"
  let ?npp = "make_new_pp (cp_section s) ?hch ?ps"
  let ?c = "find_caps cv word_label ?hch ?ps ?npp"
  from find_caps_found[of cv word_label ?hch ?ps ?npp]
  obtain sp ep where "isSppFound ?c" "isEppFound ?c" "spp ?c = Some sp" "epp ?c = Some ep"
    by blast
  then show ?thesis using assms
    by (simp add: fit_pivots_def Let_def del: not_None_eq)
qed

lemma median_band: "np_median [2, 2, 2, 2, 2] = 2"
  by code_simp

lemma new_pp_band:
  "make_new_pp [(0, 9/2), (1, 9/2), (2, 9/2), (3, 9/2), (4, 9/2), (5, 9/2), (6, 9/2), (7, 9/2),
       (8, 9/2), (9, 9/2), (10, 9/2)] (29 / 20) [(1, 9/2), (3, 9/2), (5, 9/2), (7, 9/2), (9, 9/2)]
   = [(1, 61/20, 1, 119/20), (3, 61/20, 3, 119/20), (5, 61/20, 5, 119/20), (7, 61/20, 7, 119/20),
      (9, 61/20, 9, 119/20)]"
  by (simp add: make_new_pp_def enumerate_eq_zip upt_rec horizontal_pivot_def atan2_def Let_def)

lemma clear_a: "\<not> line_is_clear cv_axis labels_band (- 9/20, 61/20, - 9/20, 119/20)"
  by code_simp

lemma clear_b: "line_is_clear cv_axis labels_band (- 103/100, 61/20, - 103/100, 119/20)"
  by code_simp

lemma clear_c: "\<not> line_is_clear cv_axis labels_band (209/20, 61/20, 209/20, 119/20)"
  by code_simp

lemma clear_d: "line_is_clear cv_axis labels_band (1103/100, 61/20, 1103/100, 119/20)"
  by code_simp

lemma step1: "cap_step cv_axis labels_band (29 / 20) 0 0 npp_band (1 / 2)
     \<lparr>isSppFound = False, isEppFound = False, spp = None, epp = None\<rparr> =
     \<lparr>isSppFound = False, isEppFound = False, spp = None, epp = None\<rparr>"
  using clear_a clear_c
  by (simp add: cap_step_def npp_band_def quad_sub_def quad_add_def Let_def max_r_def step_r_def)

lemma step2: "cap_step cv_axis labels_band (29 / 20) 0 0 npp_band (7 / 10)
     \<lparr>isSppFound = False, isEppFound = False, spp = None, epp = None\<rparr> =
     \<lparr>isSppFound = True, isEppFound = True, spp = Some (- 103/100, 61/20, - 103/100, 119/20),
      epp = Some (1103/100, 61/20, 1103/100, 119/20)\<rparr>"
  using clear_b clear_d
  by (simp add: cap_step_def npp_band_def quad_sub_def quad_add_def Let_def max_r_def step_r_def)

lemma caps_band: "find_caps cv_axis labels_band (29 / 20) [(1, 9/2), (3, 9/2), (5, 9/2), (7, 9/2), (9, 9/2)] npp_band =
     \<lparr>isSppFound = True, isEppFound = True, spp = Some (- 103/100, 61/20, - 103/100, 119/20),
      epp = Some (1103/100, 61/20, 1103/100, 119/20)\<rparr>"
  unfolding find_caps_def arange_caps
  using step1 step2
  by (simp add: Let_def del: One_nat_def)

lemma make_poly_band:
  "make_poly [[21 / 22, 0, 0], [0, 19 / 20, 0], [0, 0, 1]] (- 103/100, 61/20, - 103/100, 119/20)
     npp_band (1103/100, 61/20, 1103/100, 119/20) = poly_band"
  by (simp add: make_poly_def npp_band_def poly_band_def warpCoord_def np_matmul_def upper_def lower_def)

lemma fit_pivots_band:
  "fit_pivots cv_axis labels_band [[21 / 22, 0, 0], [0, 19 / 20, 0], [0, 0, 1]] 1 s_band = Some poly_band"
proof -
  have n: "make_new_pp (cp_section s_band) (29 / 20) (map the (pp s_band)) = npp_band"
    using new_pp_band by (simp add: s_band_def npp_band_def)
  have m: "np_median (seg_height s_band) * expand_ratio / 2 = 29 / 20"
    using median_band by (simp add: s_band_def expand_ratio_def)
  have c: "find_caps cv_axis labels_band (29 / 20) (map the (pp s_band)) npp_band =
     \<lparr>isSppFound = True, isEppFound = True, spp = Some (- 103/100, 61/20, - 103/100, 119/20),
      epp = Some (1103/100, 61/20, 1103/100, 119/20)\<rparr>"
    using caps_band by (simp add: s_band_def)
  have g: "None \<notin> set (pp s_band)" "\<not> 1 < real_of_int (np_max_int (seg_height s_band)) * 0.25"
    by (simp_all add: s_band_def np_max_int_def)
  show ?thesis
    unfolding fit_pivots_def Let_def m n c
    using g make_poly_band by simp
qed

lemma fit_strip_band:
  "fit_strip cv_axis labels_band 11 10 [[21 / 22, 0, 0], [0, 19 / 20, 0], [0, 0, 1]] =
     Some poly_band"
proof -
  have "fit_strip cv_axis labels_band 11 10 [[21 / 22, 0, 0], [0, 19 / 20, 0], [0, 0, 1]] =
      fit_pivots cv_axis labels_band [[21 / 22, 0, 0], [0, 19 / 20, 0], [0, 0, 1]] 1 s_band"
    unfolding fit_strip_def s_band_def
    apply (simp only: nat_numeral scan_band prod.case Let_def num_cp_def)
    apply (simp add: max_len_ratio_def pivots_band del: pivot_loop.simps replicate.simps One_nat_def)
    done
  then show ?thesis by (simp add: fit_pivots_band)
qed

lemma fit_band: "fit_box cv_axis labels_band [1] 0 box_band = Inr (Some poly_band)"
  unfolding fit_box_def strip_band
  by (simp add: cv_axis_sel M_band Minv_band warp_band binarize_band fit_strip_band
      del: One_nat_def)

lemma strip_flat: "strip_size cv_axis box_flat = (21, 21)"
  by (simp add: strip_size_def box_flat_def norms_axis cv_axis_sel fl_53 py_int_def)

lemma M_flat: "np_linalg_inv (affine_transform box_flat (target_rect 21 21)) = None"
  by (simp add: affine_transform_def box_flat_def target_rect_def Let_def)

lemma fit_box_singular:
  assumes "np_linalg_inv (getPerspectiveTransform cv box
             (target_rect (fst (strip_size cv box)) (snd (strip_size cv box)))) = None"
  shows "fit_box cv labels mapper k box = Inr None"
  using assms by (cases "strip_size cv box") (simp add: fit_box_def Let_def)

section \<open>Claims on polygon fitting\<close>

lemma fit_box_short_edge:
  assumes "24 \<le> scalar_bits cv"
    and "np_norm cv (box ! 0) (box ! 1) < 9 \<or> np_norm cv (box ! 1) (box ! 2) < 9"
  shows "fit_box cv labels mapper k box = Inr None"
proof -
  have "fst (strip_size cv box) < 10 \<or> snd (strip_size cv box) < 10"
    unfolding strip_size_def fst_conv snd_conv
    using assms short_edge_size[of cv "box ! 0" "box ! 1"]
      short_edge_size[of cv "box ! 1" "box ! 2"] by blast
  then show ?thesis
    by (cases "strip_size cv box") (auto simp: fit_box_def)
qed

lemma fit_box_mapper:
  assumes "mapper ! k = mapper' ! k'" and "k < length mapper" and "k' < length mapper'"
  shows "fit_box cv labels mapper k box = fit_box cv labels mapper' k' box"
  using assms
  by (cases "strip_size cv box") (auto simp: fit_box_def Let_def split: option.splits)

text \<open>With an entry of \<open>mapper\<close> for the box, the body does not raise.\<close>

lemma fit_box_returns:
  assumes "k < length mapper"
  shows "\<exists>p. fit_box cv labels mapper k box = Inr p"
  using assms
  by (cases "strip_size cv box") (auto simp: fit_box_def Let_def split: option.splits)

lemma poly_loop_returns:
  assumes "\<forall>kb \<in> set ps. fst kb < length mapper"
  shows "\<exists>qs. poly_loop cv labels mapper ps polys = Inr (polys @ qs) \<and>
           length qs = length ps \<and>
           (\<forall>j < length ps.
              fit_box cv labels mapper (fst (ps ! j)) (snd (ps ! j)) = Inr (qs ! j))"
  using assms
proof (induction ps arbitrary: polys)
  case Nil
  then show ?case by simp
next
  case (Cons kb ps)
  obtain k box where kb: "kb = (k, box)" by (cases kb) auto
  have "k < length mapper" using Cons.prems kb by simp
  then obtain p where p: "fit_box cv labels mapper k box = Inr p"
    using fit_box_returns by blast
  have "\<forall>kb \<in> set ps. fst kb < length mapper"
    using Cons.prems by simp
  from Cons.IH[OF this]
  obtain qs where qs: "poly_loop cv labels mapper ps (polys @ [p]) = Inr ((polys @ [p]) @ qs)"
    "length qs = length ps"
    "\<forall>j < length ps. fit_box cv labels mapper (fst (ps ! j)) (snd (ps ! j)) = Inr (qs ! j)"
    by blast
  have "\<forall>j < length (kb # ps).
      fit_box cv labels mapper (fst ((kb # ps) ! j)) (snd ((kb # ps) ! j)) = Inr ((p # qs) ! j)"
    using qs(3) p kb by (auto simp: nth_Cons split: nat.splits)
  then show ?case
    using qs(1,2) p kb by (intro exI[of _ "p # qs"]) simp
qed

lemma getPoly_core_returns:
  assumes "length boxes \<le> length mapper"
  shows "\<exists>polys. getPoly_core cv boxes labels mapper linkmap = Inr polys \<and>
           length polys = length boxes \<and>
           (\<forall>j < length boxes. fit_box cv labels mapper j (boxes ! j) = Inr (polys ! j))"
proof -
  have "\<forall>kb \<in> set (enumerate 0 boxes). fst kb < length mapper"
    using assms by (auto simp: in_set_enumerate_eq)
  from poly_loop_returns[OF this, of cv labels "[]"]
  show ?thesis
    by (simp add: getPoly_core_def nth_enumerate_eq)
qed

lemma getPoly_core_length:
  assumes "getPoly_core cv boxes labels mapper linkmap = Inr polys"
  shows "length polys = length boxes"
proof -
  have "poly_loop cv labels mapper ps acc = Inr polys \<Longrightarrow>
      length polys = length acc + length ps" for ps acc
    by (induction ps arbitrary: acc) (auto split: sum.splits)
  from this[of "enumerate 0 boxes" "[]"] assms show ?thesis
    by (simp add: getPoly_core_def)
qed

lemma getPoly_core_single:
  assumes "fit_box cv labels mapper 0 box = Inr p"
  shows "getPoly_core cv [box] labels mapper linkmap = Inr [p]"
  using assms by (simp add: getPoly_core_def enumerate_eq_zip)

text \<open>
  Claim C6, as stated: every box with an edge shorter than 10 is unfit.  The box
  \<open>box_band\<close> has the height 9.5, exactly and as computed, and
  \<^verbatim>\<open>getPoly_core\<close> returns the polygon \<open>poly_band\<close> of 14 points for it: the size
  filter compares \<^verbatim>\<open>int(length + 1)\<close> with 10, which lets every computed length
  from 9 on pass.
\<close>

theorem short_box_gets_polygon:
  "spec_edge_length (box_band ! 1) (box_band ! 2) = 9.5 \<and>
   np_norm cv_axis (box_band ! 1) (box_band ! 2) = 9.5 \<and>
   getPoly_core cv_axis [box_band] labels_band [1] linkmap_zero = Inr [Some poly_band]"
proof -
  have "getPoly_core cv_axis [box_band] labels_band [1] linkmap_zero = Inr [Some poly_band]"
    by (rule getPoly_core_single[OF fit_band])
  moreover have "np_norm cv_axis (box_band ! 1) (box_band ! 2) = 9.5"
    by (simp add: box_band_def norms_axis)
  moreover have "spec_edge_length (box_band ! 1) (box_band ! 2) = 9.5"
    by (simp add: box_band_def spec_edge_length_def)
  ultimately show ?thesis by simp
qed

text \<open>
  Claim C6, amended: every box whose first or second edge has a computed length
  below 9 gets the unfit marker \<^verbatim>\<open>None\<close>, \<^verbatim>\<open>getPoly_core\<close> being called with one
  entry of \<open>mapper\<close> for every box.  The computed length is the \<^verbatim>\<open>float32\<close>
  number \<^verbatim>\<open>np.linalg.norm\<close> returns for the edge; below 9 it makes
  \<^verbatim>\<open>int(length + 1)\<close> less than 10, however the squares were summed and whether
  the sum with 1 is a \<^verbatim>\<open>float32\<close> or a \<^verbatim>\<open>float64\<close> number.  The bound is on
  the computed length and not on the exact one: by \<open>computed_length_rounds_up\<close> an
  edge of an exact length below 9 can have the computed length 9.
\<close>

theorem edge_below_nine_is_unfit:
  assumes "24 \<le> scalar_bits cv"
    and "length mapper = length boxes" and "k < length boxes"
    and "np_norm cv (boxes ! k ! 0) (boxes ! k ! 1) < 9 \<or>
         np_norm cv (boxes ! k ! 1) (boxes ! k ! 2) < 9"
  shows "\<exists>polys. getPoly_core cv boxes labels mapper linkmap = Inr polys \<and> polys ! k = None"
proof -
  obtain polys where p: "getPoly_core cv boxes labels mapper linkmap = Inr polys"
    "\<forall>j < length boxes. fit_box cv labels mapper j (boxes ! j) = Inr (polys ! j)"
    using getPoly_core_returns[of boxes mapper cv labels linkmap] assms(2) by auto
  then have "polys ! k = None"
    using assms(3) fit_box_short_edge[OF assms(1,4), of labels mapper k] by auto
  then show ?thesis using p(1) by blast
qed

theorem edge_below_nine_is_unfit_witness:
  "24 \<le> scalar_bits cv_axis \<and> np_norm cv_axis (box_thin ! 1) (box_thin ! 2) = 8 \<and>
   (\<exists>polys. getPoly_core cv_axis [box_band, box_thin] labels_band [1, 1] linkmap_zero =
      Inr polys \<and> polys ! 1 = None)"
proof -
  have b: "24 \<le> scalar_bits cv_axis" by (simp add: cv_axis_sel)
  have n: "np_norm cv_axis (box_thin ! 1) (box_thin ! 2) = 8"
    by (simp add: box_thin_def norms_axis)
  have "np_norm cv_axis ([box_band, box_thin] ! 1 ! 0) ([box_band, box_thin] ! 1 ! 1) < 9 \<or>
        np_norm cv_axis ([box_band, box_thin] ! 1 ! 1) ([box_band, box_thin] ! 1 ! 2) < 9"
    using n by simp
  from edge_below_nine_is_unfit[OF b _ _ this, of "[1, 1]" labels_band linkmap_zero]
  show ?thesis using n b by simp
qed

text \<open>
  Claim C9.  \<^verbatim>\<open>getPoly_core\<close> is called with one entry of \<open>mapper\<close> for every
  box.  When \<^verbatim>\<open>np.linalg.inv\<close> fails on the perspective transform of the box at
  index \<open>k\<close>, the call still returns; the entry \<open>k\<close> of the result is \<^verbatim>\<open>None\<close>,
  the result has one entry for every box, and every entry is what the loop body
  gives for its own box, whatever happens at the other boxes.
\<close>

theorem singular_transform_is_unfit:
  assumes "length mapper = length boxes" and "k < length boxes"
    and "np_linalg_inv (getPerspectiveTransform cv (boxes ! k)
           (target_rect (fst (strip_size cv (boxes ! k)))
              (snd (strip_size cv (boxes ! k))))) = None"
  shows "\<exists>polys. getPoly_core cv boxes labels mapper linkmap = Inr polys \<and>
           polys ! k = None \<and> length polys = length boxes \<and>
           (\<forall>j < length boxes. fit_box cv labels mapper j (boxes ! j) = Inr (polys ! j))"
proof -
  obtain polys where p: "getPoly_core cv boxes labels mapper linkmap = Inr polys"
    "length polys = length boxes"
    "\<forall>j < length boxes. fit_box cv labels mapper j (boxes ! j) = Inr (polys ! j)"
    using getPoly_core_returns[of boxes mapper cv labels linkmap] assms(1) by auto
  then have "polys ! k = None"
    using assms(2) fit_box_singular[OF assms(3), of labels mapper k] by auto
  then show ?thesis using p by blast
qed

theorem singular_transform_is_unfit_witness:
  "np_linalg_inv (getPerspectiveTransform cv_axis box_flat (target_rect 21 21)) = None \<and>
   \<not> fst (strip_size cv_axis box_flat) < 10 \<and> \<not> snd (strip_size cv_axis box_flat) < 10 \<and>
   getPoly_core cv_axis [box_band, box_flat] labels_band [1, 1] linkmap_zero =
     Inr [Some poly_band, None]"
proof -
  have h: "np_linalg_inv (getPerspectiveTransform cv_axis ([box_band, box_flat] ! 1)
           (target_rect (fst (strip_size cv_axis ([box_band, box_flat] ! 1)))
              (snd (strip_size cv_axis ([box_band, box_flat] ! 1))))) = None"
    by (simp add: strip_flat cv_axis_sel M_flat)
  have k: "1 < length [box_band, box_flat]" by simp
  have l: "length [1, 1 :: nat] = length [box_band, box_flat]" by simp
  have "fit_box cv_axis labels_band [1, 1] 0 box_band = fit_box cv_axis labels_band [1] 0 box_band"
    by (rule fit_box_mapper) simp_all
  then have fb: "fit_box cv_axis labels_band [1, 1] 0 box_band = Inr (Some poly_band)"
    using fit_band by simp
  from singular_transform_is_unfit[OF l k h, of labels_band linkmap_zero]
  obtain polys where p:
    "getPoly_core cv_axis [box_band, box_flat] labels_band [1, 1] linkmap_zero = Inr polys"
    "polys ! 1 = None" "length polys = length [box_band, box_flat]"
    "\<forall>j < length [box_band, box_flat].
        fit_box cv_axis labels_band [1, 1] j ([box_band, box_flat] ! j) = Inr (polys ! j)"
    by blast
  from p(4) have "fit_box cv_axis labels_band [1, 1] 0 box_band = Inr (polys ! 0)"
    by auto
  then have "polys ! 0 = Some poly_band" using fb by simp
  then have "polys = [Some poly_band, None]"
    using p(2,3) by (auto intro!: nth_equalityI simp: nth_Cons less_Suc_eq split: nat.splits)
  then show ?thesis using p(1)
    by (simp add: strip_flat cv_axis_sel M_flat)
qed

text \<open>
  Claim C10.  The search for the end caps leaves its loop with both flags set and
  both caps bound, whatever the strip and the lines drawn on it: the fallback
  \<^verbatim>\<open>r + 2 * step_r >= max_r\<close> holds at \<open>r = 1.7\<close>.  So the test
  \<^verbatim>\<open>if not (isSppFound and isEppFound)\<close> never rejects a box: once the pivots
  are accepted, the body returns a polygon.
\<close>

theorem end_caps_always_found:
  "isSppFound (find_caps cv word_label half_char_h ps new_pp) \<and>
   isEppFound (find_caps cv word_label half_char_h ps new_pp) \<and>
   spp (find_caps cv word_label half_char_h ps new_pp) \<noteq> None \<and>
   epp (find_caps cv word_label half_char_h ps new_pp) \<noteq> None \<and>
   fit_pivots cv word_label Minv seg_w s =
     (if None \<in> set (pp s) \<or> seg_w < real_of_int (np_max_int (seg_height s)) * 0.25 then None
      else let half_char_h = np_median (seg_height s) * expand_ratio / 2;
               ps = map the (pp s);
               new_pp = make_new_pp (cp_section s) half_char_h ps;
               c = find_caps cv word_label half_char_h ps new_pp
           in Some (make_poly Minv (the (spp c)) new_pp (the (epp c))))"
proof -
  let ?hch = "np_median (seg_height s) * expand_ratio / 2"
  let ?ps = "map the (pp s)"
  let ?npp = "make_new_pp (cp_section s) ?hch ?ps"
  let ?c = "find_caps cv word_label ?hch ?ps ?npp"
  from find_caps_found[of cv word_label ?hch ?ps ?npp]
  obtain sp ep where c: "isSppFound ?c" "isEppFound ?c" "spp ?c = Some sp" "epp ?c = Some ep"
    by blast
  have "fit_pivots cv word_label Minv seg_w s =
     (if None \<in> set (pp s) \<or> seg_w < real_of_int (np_max_int (seg_height s)) * 0.25 then None
      else Some (make_poly Minv (the (spp ?c)) ?npp (the (epp ?c))))"
    using c by (simp add: fit_pivots_def Let_def del: not_None_eq)
  then show ?thesis
    using find_caps_found[of cv word_label half_char_h ps new_pp]
    by (simp add: Let_def del: not_None_eq)
qed

section \<open>Box extraction on a bar of ten pixels\<close>


lemma cc_bar: "connectedComponentsWithStats labels_bar =
  (2, labels_bar, [\<lparr>cc_left = 0, cc_top = 0, cc_width = 12, cc_height = 3, cc_area = 26\<rparr>,
                   \<lparr>cc_left = 1, cc_top = 1, cc_width = 10, cc_height = 1, cc_area = 10\<rparr>])"
  by code_simp

lemma cc_segmap_bar: "connectedComponentsWithStats segmap_bar =
  (2, labels_bar, [\<lparr>cc_left = 0, cc_top = 0, cc_width = 12, cc_height = 3, cc_area = 26\<rparr>,
                   \<lparr>cc_left = 1, cc_top = 1, cc_width = 10, cc_height = 1, cc_area = 10\<rparr>])"
  by code_simp

lemma text_score_bar: "cv_threshold textmap_bar 0.4 1 = textmap_bar"
  by (simp add: cv_threshold_def textmap_bar_def)

lemma link_score_bar: "cv_threshold linkmap_bar 0.4 1 = linkmap_bar"
  by (simp add: cv_threshold_def linkmap_bar_def)

lemma shape_bar: "shape textmap_bar = (3, 12)" "shape linkmap_bar = (3, 12)"
  "shape labels_bar = (3, 12)" "shape segmap_bar = (3, 12)"
  by (simp_all add: shape_def textmap_bar_def linkmap_bar_def labels_bar_def segmap_bar_def)

lemma upt12: "[0..<12] = [0,1,2,3,4,5,6,7,8,9,10,11]" "[0..<3] = [0,1,2]"
  by (simp_all add: upt_rec numeral_eq_Suc)

lemma broadcast_bar:
  "np_broadcast2 (\<lambda>t l. nat \<lfloor>min 1 (max 0 (t + l))\<rfloor>) textmap_bar linkmap_bar = Inr labels_bar"
  unfolding np_broadcast2_def shape_bar
  apply (simp add: broadcastable_def bcast_get_def shape_bar upt12 del: One_nat_def)
  apply (simp add: textmap_bar_def linkmap_bar_def labels_bar_def del: One_nat_def)
  done

lemma masked_bar: "masked_values textmap_bar labels_bar 1 = Inr [1, 1, 1, 1, 1, 1, 1, 1, 1, 1]"
proof -
  have "pixels_where (\<lambda>v. v = 1) labels_bar =
      [(1, 1), (1, 2), (1, 3), (1, 4), (1, 5), (1, 6), (1, 7), (1, 8), (1, 9), (1, 10)]"
    by code_simp
  then show ?thesis
    unfolding masked_values_def shape_bar
    by (simp add: textmap_bar_def del: One_nat_def)
qed

lemma max_bar: "np_max [1, 1, 1, 1, 1, 1, 1, 1, 1, 1] = Inr 1"
  by (simp add: np_max_def)

lemma make_segmap_bar: "make_segmap (3, 12) labels_bar 1 = segmap_bar"
  by code_simp

lemma cleaned_bar: "cleaned_segmap textmap_bar textmap_bar linkmap_bar labels_bar 1 = Inr segmap_bar"
  unfolding cleaned_segmap_def remove_link_area_def np_broadcast2_def shape_bar make_segmap_bar
  apply (simp add: broadcastable_def bcast_get_def shape_bar upt12 del: One_nat_def)
  apply (simp add: textmap_bar_def linkmap_bar_def segmap_bar_def shape_def del: One_nat_def)
  done

lemma count_bar: "count_characters segmap_bar = (2, 18)"
  by (simp add: count_characters_def cc_segmap_bar)

lemma dilate_bar: "paste2 segmap_bar 0 0 (cv_dilate (slice2 segmap_bar 0 3 0 12) 3) = grown_bar"
  by code_simp

lemma grow_bar:
  "grow_segmap segmap_bar \<lparr>cc_left = 1, cc_top = 1, cc_width = 10, cc_height = 1, cc_area = 10\<rparr> (3, 12)
    = grown_bar"
  by (simp add: grow_segmap_def py_int_def Let_def dilate_bar)


lemma bbox_bar: "bounding_box contours_bar = Inr [(0, 2), (0, 0), (11, 0), (11, 2)]"
proof -
  have "contours_bar \<noteq> []" by code_simp
  moreover have "fold min (tl (map fst contours_bar)) (hd (map fst contours_bar)) = 0" by code_simp
  moreover have "fold max (tl (map fst contours_bar)) (hd (map fst contours_bar)) = 11" by code_simp
  moreover have "fold min (tl (map snd contours_bar)) (hd (map snd contours_bar)) = 0" by code_simp
  moreover have "fold max (tl (map snd contours_bar)) (hd (map snd contours_bar)) = 2" by code_simp
  ultimately show ?thesis by (simp add: bounding_box_def Let_def)
qed

lemma sort_bar:
  "sort_box cv_axis [(0, 0), (11, 0), (11, 2), (0, 2)] = [(0, 0), (11, 0), (11, 2), (0, 2)]"
  by (simp add: sort_box_def np_argmin_def enumerate_eq_zip upt_rec norms_axis Let_def)

lemma make_box_bar: "make_box cv_axis grown_bar = Inr [(0, 0), (11, 0), (11, 2), (0, 2)]"
proof -
  have r: "rotate 1 [(0::real, 2::real), (0, 0), (11, 0), (11, 2)] = [(0, 0), (11, 0), (11, 2), (0, 2)]"
    by (simp add: rotate1.simps)
  have a: "np_argmin [2, 0, 11, 13] = 1"
    by (simp add: np_argmin_def enumerate_eq_zip upt_rec)
  show ?thesis
    unfolding make_box_def contours_bar_def[symmetric] cv_axis_sel(4) Let_def bbox_bar
    by (simp add: norms_axis a r sort_bar del: One_nat_def)
qed


lemma step_bar:
  "label_step cv_axis textmap_bar textmap_bar linkmap_bar labels_bar stats_bar 0.7 1
     \<lparr>l_det = [], l_mapper = [], l_num_characters = [], l_avg_character_sizes = []\<rparr> =
   Inr \<lparr>l_det = [[(0, 0), (11, 0), (11, 2), (0, 2)]], l_mapper = [1], l_num_characters = [2],
        l_avg_character_sizes = [18]\<rparr>"
  unfolding label_step_def
  by (simp add: stats_bar_def masked_bar max_bar cleaned_bar count_bar shape_bar grow_bar
      make_box_bar Let_def del: One_nat_def)

lemma core_bar:
  "getDetBoxes_core cv_axis textmap_bar linkmap_bar 0.7 0.4 0.4 =
     Inr ([[(0, 0), (11, 0), (11, 2), (0, 2)]], labels_bar, [1], [2], [18], [- 1])"
proof -
  have l: "link_boxes [[(0, 0), (11, 0), (11, 2), (0, 2)]] [18] = [- 1]"
    by (simp add: link_boxes_def enumerate_eq_zip)
  have u: "[1..<2] = [1::nat]" by (simp add: upt_rec)
  show ?thesis
    unfolding getDetBoxes_core_def Let_def text_score_bar link_score_bar broadcast_bar
    by (simp add: cc_bar u step_bar[unfolded stats_bar_def] l del: One_nat_def)
qed

section \<open>Properties of the loop over the labels\<close>


lemma label_step_aligned:
  assumes "label_step cv tm ts ls labels stats tt k a = Inr a'" and "lists_aligned a"
  shows "lists_aligned a'"
  using assms
  by (auto simp: label_step_def lists_aligned_def Let_def split: if_splits sum.splits)

lemma label_loop_aligned:
  assumes "label_loop cv tm ts ls labels stats tt ks a = Inr a'" and "lists_aligned a"
  shows "lists_aligned a'"
  using assms
proof (induction ks arbitrary: a)
  case Nil
  then show ?case by simp
next
  case (Cons k ks)
  then show ?case
    by (auto split: sum.splits dest: label_step_aligned)
qed

lemma core_lengths:
  assumes "getDetBoxes_core cv tm lm tt lt low = Inr (boxes, labels, mapper, nc, av, wid)"
  shows "length mapper = length boxes \<and> length nc = length boxes \<and> length av = length boxes \<and>
         wid = link_boxes boxes av"
proof -
  have "lists_aligned \<lparr>l_det = [], l_mapper = [], l_num_characters = [], l_avg_character_sizes = []\<rparr>"
    by (simp add: lists_aligned_def)
  then show ?thesis
    using assms
    by (auto simp: getDetBoxes_core_def Let_def lists_aligned_def
        split: sum.splits prod.splits dest!: label_loop_aligned)
qed

lemma getDetBoxes_Inr:
  assumes "getDetBoxes cv tm lm tt lt low poly = Inr r"
  shows "getDetBoxes_core cv tm lm tt lt low =
      Inr (r_boxes r, r_labels r, r_mapper r, r_num_characters r, r_average_character_size r,
           r_word_id r) \<and>
    (if poly then getPoly_core cv (r_boxes r) (r_labels r) (r_mapper r) lm
     else Inr (replicate (length (r_boxes r)) None)) = Inr (r_polys r)"
  using assms
  by (auto simp: getDetBoxes_def Let_def split: sum.splits prod.splits if_splits)




lemma count_characters_fst:
  "fst (count_characters segmap) = 1 + length (components (pixels_where (\<lambda>v. v \<noteq> 0) segmap))"
  by (simp add: count_characters_def connectedComponentsWithStats_def Let_def)

lemma label_step_chars:
  assumes "label_step cv tm ts ls labels stats tt k a = Inr a'"
    and "chars_recorded tm ts ls labels a"
  shows "chars_recorded tm ts ls labels a'"
proof (cases "a' = a")
  case True
  then show ?thesis using assms(2) by simp
next
  case False
  then obtain segmap box where s: "cleaned_segmap tm ts ls labels k = Inr segmap"
    and a': "a' = a\<lparr>l_num_characters := l_num_characters a @ [fst (count_characters segmap)],
                    l_avg_character_sizes := l_avg_character_sizes a @ [snd (count_characters segmap)],
                    l_det := l_det a @ [box], l_mapper := l_mapper a @ [k]\<rparr>"
    using assms(1)
    by (auto simp: label_step_def Let_def split: if_splits sum.splits)
  show ?thesis
    unfolding chars_recorded_def
  proof (intro conjI allI impI)
    show "length (l_num_characters a') = length (l_mapper a')"
      using assms(2) by (simp add: a' chars_recorded_def)
  next
    fix i assume i: "i < length (l_mapper a')"
    show "\<exists>segmap. cleaned_segmap tm ts ls labels (l_mapper a' ! i) = Inr segmap \<and>
         l_num_characters a' ! i = 1 + length (components (pixels_where (\<lambda>v. v \<noteq> 0) segmap))"
    proof (cases "i < length (l_mapper a)")
      case True
      then show ?thesis using assms(2) by (simp add: a' chars_recorded_def nth_append)
    next
      case False
      then have "i = length (l_mapper a)" using i by (simp add: a')
      then show ?thesis
        using assms(2) s count_characters_fst[of segmap]
        by (simp add: a' chars_recorded_def nth_append)
    qed
  qed
qed

lemma label_loop_chars:
  assumes "label_loop cv tm ts ls labels stats tt ks a = Inr a'"
    and "chars_recorded tm ts ls labels a"
  shows "chars_recorded tm ts ls labels a'"
  using assms
proof (induction ks arbitrary: a)
  case Nil
  then show ?case by simp
next
  case (Cons k ks)
  then show ?case
    by (auto split: sum.splits dest: label_step_chars)
qed

lemma num_characters_is_label_count:
  assumes "getDetBoxes_core cv tm lm tt lt low = Inr (boxes, labels, mapper, nc, av, wid)"
    and "i < length mapper"
  shows "\<exists>segmap.
     cleaned_segmap tm (cv_threshold tm low 1) (cv_threshold lm lt 1) labels (mapper ! i) = Inr segmap \<and>
     nc ! i = 1 + length (components (pixels_where (\<lambda>v. v \<noteq> 0) segmap))"
proof -
  let ?a0 = "\<lparr>l_det = [], l_mapper = [], l_num_characters = [], l_avg_character_sizes = []\<rparr>"
  have a0: "chars_recorded tm (cv_threshold tm low 1) (cv_threshold lm lt 1) labels ?a0"
    by (simp add: chars_recorded_def)
  obtain a comb nl stats where
    l: "label_loop cv tm (cv_threshold tm low 1) (cv_threshold lm lt 1) labels stats tt [1..<nl] ?a0 = Inr a"
    and m: "mapper = l_mapper a" "nc = l_num_characters a"
    using assms(1)
    by (auto simp: getDetBoxes_core_def Let_def split: sum.splits prod.splits)
  from label_loop_chars[OF l a0] show ?thesis
    using assms(2) m by (simp add: chars_recorded_def)
qed

lemma comps_bar:
  "components (pixels_where (\<lambda>v. v \<noteq> 0) segmap_bar) =
     [[(1, 1), (1, 2), (1, 3), (1, 4), (1, 5), (1, 6), (1, 7), (1, 8), (1, 9), (1, 10)]]"
  by code_simp



section \<open>Shapes and thresholds\<close>


lemma shape_cv_threshold: "shape (cv_threshold a t m) = shape a"
  by (cases a) (simp_all add: shape_def cv_threshold_def)

lemma not_broadcastable_core:
  assumes "\<not> broadcastable (shape tm) (shape lm)"
  shows "getDetBoxes_core cv tm lm tt lt low = Inl ValueError"
  using assms by (simp add: getDetBoxes_core_def np_broadcast2_def shape_cv_threshold Let_def)

lemma not_broadcastable_getDetBoxes:
  assumes "\<not> broadcastable (shape tm) (shape lm)"
  shows "getDetBoxes cv tm lm tt lt low poly = Inl ValueError"
  using not_broadcastable_core[OF assms] by (simp add: getDetBoxes_def)




lemma wf_shape_pos: "wf_img a \<Longrightarrow> 0 < fst (shape a) \<and> 0 < snd (shape a)"
  by (cases a) (auto simp: wf_img_def shape_def)









lemma getDetBoxes_bar:
  "getDetBoxes cv_axis textmap_bar linkmap_bar 0.7 0.4 0.4 True = Inr result_bar"
  "getDetBoxes cv_axis textmap_bar linkmap_bar 0.7 0.4 0.4 False = Inr result_bar"
proof -
  have "fit_box cv_axis labels_bar [1] 0 [(0, 0), (11, 0), (11, 2), (0, 2)] = Inr None"
    by (rule fit_box_short_edge) (simp_all add: norms_axis cv_axis_sel)
  then have p: "getPoly_core cv_axis [[(0, 0), (11, 0), (11, 2), (0, 2)]] labels_bar [1]
      linkmap_bar = Inr [None]"
    by (rule getPoly_core_single)
  show "getDetBoxes cv_axis textmap_bar linkmap_bar 0.7 0.4 0.4 True = Inr result_bar"
    unfolding getDetBoxes_def core_bar by (simp add: p result_bar_def del: One_nat_def)
  show "getDetBoxes cv_axis textmap_bar linkmap_bar 0.7 0.4 0.4 False = Inr result_bar"
    unfolding getDetBoxes_def core_bar by (simp add: result_bar_def del: One_nat_def)
qed

section \<open>Claims on box extraction\<close>

text \<open>
  Claim C1.  In every record \<^verbatim>\<open>getDetBoxes\<close> returns, with \<open>poly\<close> true or
  false, the lists \<open>boxes\<close>, \<open>mapper\<close>, \<open>num_characters\<close>,
  \<open>average_character_size\<close>, \<open>word_id\<close> and \<open>polys\<close> have one length.  This holds
  for every input on which a record is returned, so for every valid input.
\<close>

theorem getDetBoxes_lists_aligned:
  assumes "getDetBoxes cv textmap linkmap text_threshold link_threshold low_text poly = Inr r"
  shows "length (r_mapper r) = length (r_boxes r) \<and>
         length (r_num_characters r) = length (r_boxes r) \<and>
         length (r_average_character_size r) = length (r_boxes r) \<and>
         length (r_word_id r) = length (r_boxes r) \<and>
         length (r_polys r) = length (r_boxes r)"
proof -
  have p: "(if poly then getPoly_core cv (r_boxes r) (r_labels r) (r_mapper r) linkmap
       else Inr (replicate (length (r_boxes r)) None)) = Inr (r_polys r)"
    using getDetBoxes_Inr[OF assms] by blast
  have "length (r_polys r) = length (r_boxes r)"
  proof (cases poly)
    case True
    then show ?thesis using p getPoly_core_length by auto
  next
    case False
    then have "r_polys r = replicate (length (r_boxes r)) None" using p by simp
    then show ?thesis by (metis length_replicate)
  qed
  then show ?thesis
    using getDetBoxes_Inr[OF assms]
      core_lengths[of cv textmap linkmap text_threshold link_threshold low_text
        "r_boxes r" "r_labels r"]
    by (auto simp: length_link_boxes)
qed

theorem getDetBoxes_lists_aligned_witness:
  "getDetBoxes cv_axis textmap_bar linkmap_bar 0.7 0.4 0.4 True = Inr result_bar \<and>
   length (r_boxes result_bar) = 1 \<and>
   length (r_mapper result_bar) = length (r_boxes result_bar) \<and>
   length (r_num_characters result_bar) = length (r_boxes result_bar) \<and>
   length (r_average_character_size result_bar) = length (r_boxes result_bar) \<and>
   length (r_word_id result_bar) = length (r_boxes result_bar) \<and>
   length (r_polys result_bar) = length (r_boxes result_bar)"
  using getDetBoxes_lists_aligned[OF getDetBoxes_bar(1)] getDetBoxes_bar(1)
  by (simp add: result_bar_def)

text \<open>
  Claim C2.  On \<open>textmap_bar\<close>, a single isolated bar of ten pixels above the
  thresholds with an all-zero link map, the cleaned segmentation map of the one
  retained label has one connected component, of area 10.  The entry of
  \<open>num_characters\<close> is 2 and the entry of \<open>avg_character_sizes\<close> is 18: the
  count \<^verbatim>\<open>cv2.connectedComponentsWithStats\<close> returns includes the background
  label, and the mean is taken over the areas of all labels, background included.
\<close>

theorem num_characters_counts_background_label:
  "getDetBoxes_core cv_axis textmap_bar linkmap_bar 0.7 0.4 0.4 =
     Inr ([[(0, 0), (11, 0), (11, 2), (0, 2)]], labels_bar, [1], [2], [18], [- 1]) \<and>
   cleaned_segmap textmap_bar (cv_threshold textmap_bar 0.4 1) (cv_threshold linkmap_bar 0.4 1)
     labels_bar 1 = Inr segmap_bar \<and>
   components (pixels_where (\<lambda>v. v \<noteq> 0) segmap_bar) =
     [[(1, 1), (1, 2), (1, 3), (1, 4), (1, 5), (1, 6), (1, 7), (1, 8), (1, 9), (1, 10)]]"
  unfolding text_score_bar link_score_bar
  using core_bar comps_bar cleaned_bar by blast

text \<open>
  Claim C3, as stated: a call with maps of different shapes fails with a
  shape-mismatch error.  A text map of shape \<open>(2, 2)\<close> and a link map of shape
  \<open>(1, 1)\<close> are processed without any error: NumPy broadcasts the link map.
\<close>

theorem different_shapes_accepted:
  "shape [[0, 0], [0, 0 :: real]] \<noteq> shape [[0 :: real]] \<and>
   getDetBoxes cv_axis [[0, 0], [0, 0]] [[0]] 0.7 0.4 0.4 False =
     Inr \<lparr>r_boxes = [], r_labels = [[0, 0], [0, 0]], r_mapper = [], r_num_characters = [],
          r_average_character_size = [], r_word_id = [], r_polys = []\<rparr>"
proof -
  have b: "np_broadcast2 (\<lambda>t l. nat \<lfloor>min 1 (max 0 (t + l))\<rfloor>) [[0, 0], [0, 0]] [[0::real]] =
      Inr [[0, 0], [0, 0]]"
    by (simp add: np_broadcast2_def broadcastable_def shape_def bcast_get_def upt_rec
        numeral_eq_Suc)
  have c: "connectedComponentsWithStats [[0, 0], [0, 0]] =
      (1, [[0, 0], [0, 0]], [\<lparr>cc_left = 0, cc_top = 0, cc_width = 2, cc_height = 2, cc_area = 4\<rparr>])"
    by code_simp
  show ?thesis
    by (simp add: getDetBoxes_def getDetBoxes_core_def cv_threshold_def b c link_boxes_def
        shape_def)
qed

text \<open>
  Claim C3, amended: when the shapes of the two maps cannot be broadcast (in some
  dimension the sizes differ and neither is 1), the call fails with the
  \<^verbatim>\<open>ValueError\<close> of \<^verbatim>\<open>text_score + link_score\<close>, before any component is
  looked at.
\<close>

theorem incompatible_shapes_fail:
  assumes "\<not> broadcastable (shape textmap) (shape linkmap)"
  shows "getDetBoxes cv textmap linkmap text_threshold link_threshold low_text poly =
           Inl ValueError"
  using not_broadcastable_getDetBoxes[OF assms] .

theorem incompatible_shapes_fail_witness:
  "\<not> broadcastable (shape [[0, 0], [0, 0 :: real]]) (shape [[0, 0, 0], [0, 0, 0 :: real]]) \<and>
   getDetBoxes cv_axis [[0, 0], [0, 0]] [[0, 0, 0], [0, 0, 0]] 0.7 0.4 0.4 True = Inl ValueError"
proof -
  have h: "\<not> broadcastable (shape [[0, 0], [0, 0 :: real]]) (shape [[0, 0, 0], [0, 0, 0 :: real]])"
    by (simp add: broadcastable_def shape_def)
  from incompatible_shapes_fail[OF h] h show ?thesis by blast
qed

text \<open>
  Claim C5.  In every record \<^verbatim>\<open>getDetBoxes\<close> returns, the entry of \<open>word_id\<close>
  at the index \<open>i\<close> of a box is \<open>-1\<close> or the index of a box other than \<open>i\<close>.
\<close>

theorem word_id_entries_valid:
  assumes "getDetBoxes cv textmap linkmap text_threshold link_threshold low_text poly = Inr r"
    and "i < length (r_boxes r)"
  shows "r_word_id r ! i = - 1 \<or>
     (0 \<le> r_word_id r ! i \<and> r_word_id r ! i < int (length (r_boxes r)) \<and>
      r_word_id r ! i \<noteq> int i)"
proof -
  have "r_word_id r = link_boxes (r_boxes r) (r_average_character_size r)"
    using getDetBoxes_Inr[OF assms(1)]
      core_lengths[of cv textmap linkmap text_threshold link_threshold low_text
        "r_boxes r" "r_labels r"]
    by auto
  then show ?thesis
    using link_boxes_ok[OF assms(2), of "r_average_character_size r"]
    by (simp add: ok_entry_def)
qed

theorem word_id_entries_valid_witness:
  "getDetBoxes cv_axis textmap_bar linkmap_bar 0.7 0.4 0.4 False = Inr result_bar \<and>
   0 < length (r_boxes result_bar) \<and>
   (r_word_id result_bar ! 0 = - 1 \<or>
     (0 \<le> r_word_id result_bar ! 0 \<and>
      r_word_id result_bar ! 0 < int (length (r_boxes result_bar)) \<and>
      r_word_id result_bar ! 0 \<noteq> int 0))"
proof -
  have l: "0 < length (r_boxes result_bar)" by (simp add: result_bar_def)
  from word_id_entries_valid[OF getDetBoxes_bar(2) l] getDetBoxes_bar(2) l
  show ?thesis by blast
qed




end
